theory Spec2Isabelle
  imports Complex_Main "HOL-Library.Word" "HOL-Library.Sublist" "HOL-Library.Log_Nat"
begin

section \<open>Strings of the host language\<close>

text \<open>
  A TypeScript string is a sequence of UTF-16 code units, and \<open>length\<close> counts code
  units. A string is modelled as a list of 16-bit words. String literals of the source
  are written \<open>js ''...''\<close>; the only non-ASCII literal of the source, the list marker
  of \<open>formatAgentMessage\<close>, is written out as code units.
\<close>

type_synonym code_unit = "16 word"
type_synonym jsstring = "code_unit list"

definition js :: "string \<Rightarrow> jsstring" where
  "js s = map (\<lambda>c. of_nat (of_char c)) s"

text \<open>
  \<open>WhiteSpace\<close> and \<open>LineTerminator\<close> of ECMAScript: the code units that
  \<open>String.prototype.trim\<close> strips and that the regular expression class \<open>\s\<close> matches.
\<close>

definition isWhiteSpace :: "code_unit \<Rightarrow> bool" where
  "isWhiteSpace c \<longleftrightarrow>
     c = 0x09 \<or> c = 0x0A \<or> c = 0x0B \<or> c = 0x0C \<or> c = 0x0D \<or> c = 0x20 \<or> c = 0xA0 \<or>
     c = 0x1680 \<or> (0x2000 \<le> c \<and> c \<le> 0x200A) \<or> c = 0x2028 \<or> c = 0x2029 \<or>
     c = 0x202F \<or> c = 0x205F \<or> c = 0x3000 \<or> c = 0xFEFF"

text \<open>\<open>s.trim()\<close>: white space removed from both ends.\<close>

definition trim :: "jsstring \<Rightarrow> jsstring" where
  "trim s = rev (dropWhile isWhiteSpace (rev (dropWhile isWhiteSpace s)))"

text \<open>
  \<open>s.replace(/\s+/g, " ")\<close>: every maximal run of white space becomes one space.
\<close>

function replaceWhiteSpaceRuns :: "jsstring \<Rightarrow> jsstring" where
  "replaceWhiteSpaceRuns [] = []"
| "replaceWhiteSpaceRuns (c # cs) =
     (if isWhiteSpace c then 0x20 # replaceWhiteSpaceRuns (dropWhile isWhiteSpace cs)
      else c # replaceWhiteSpaceRuns cs)"
  by pat_completeness auto
termination
  by (relation "measure length") (auto simp: length_dropWhile_le less_Suc_eq_le)

text \<open>
  \<open>s.toLowerCase()\<close>. The model maps the letters A to Z of Basic Latin and leaves every
  other code unit as it is; ECMAScript also maps the letters outside Basic Latin. The
  keywords of the table are Basic Latin, and no general theorem below unfolds this
  definition: what is proved of \<open>pickNarrative\<close> holds of the lowered string whatever the
  lowering does.
\<close>

definition toLowerCaseUnit :: "code_unit \<Rightarrow> code_unit" where
  "toLowerCaseUnit c = (if 0x41 \<le> c \<and> c \<le> 0x5A then c + 0x20 else c)"

definition toLowerCase :: "jsstring \<Rightarrow> jsstring" where
  "toLowerCase s = map toLowerCaseUnit s"

text \<open>
  \<open>s.includes(k)\<close>: the search of \<open>k\<close> in \<open>s\<close> from every start position, left to
  right; \<open>startsWith\<close> compares at one position.
\<close>

fun startsWith :: "jsstring \<Rightarrow> jsstring \<Rightarrow> bool" where
  "startsWith s [] = True"
| "startsWith [] (k # ks) = False"
| "startsWith (c # cs) (k # ks) = (c = k \<and> startsWith cs ks)"

fun includes_str :: "jsstring \<Rightarrow> jsstring \<Rightarrow> bool" where
  "includes_str [] k = startsWith [] k"
| "includes_str (c # cs) k = (startsWith (c # cs) k \<or> includes_str cs k)"

text \<open>\<open>xs.join(sep)\<close> on an array of strings.\<close>

fun join :: "jsstring \<Rightarrow> jsstring list \<Rightarrow> jsstring" where
  "join sep [] = []"
| "join sep [x] = x"
| "join sep (x # y # ys) = x @ sep @ join sep (y # ys)"

text \<open>
  The template \<open>${index + 1}\<close> prints a positive integer in decimal; \<open>digits\<close> is the
  loop that produces the digits, most significant first.
\<close>

definition digit :: "nat \<Rightarrow> code_unit" where
  "digit d = 0x30 + of_nat d"

function digits :: "nat \<Rightarrow> jsstring" where
  "digits n = (if n < 10 then [digit n] else digits (n div 10) @ [digit (n mod 10)])"
  by pat_completeness auto
termination
  by (relation "measure id") auto

section \<open>Numbers of the host language\<close>

text \<open>
  A TypeScript number is an IEEE 754 double. A finite double is modelled by the real
  number it denotes, and an arithmetic operation by the exact operation on reals
  followed by \<open>roundToDouble\<close>, the rounding to the nearest double with ties to the
  even significand. The unit in the last place of a number \<open>x\<close> is \<open>pow2 (ulpExp x)\<close>:
  \<open>binade x\<close> is the exponent \<open>e\<close> with \<open>pow2 e \<le> \<bar>x\<bar> < pow2 (e + 1)\<close>, read off the
  bit length of \<open>\<bar>x\<bar>\<close> scaled by the smallest positive double, a significand has 53 bits,
  and below the normal range the unit stays that of the smallest binade. Overflow is
  not modelled: the numbers of this program stay below 1024.
\<close>

definition pow2 :: "int \<Rightarrow> real" where
  "pow2 e = (if 0 \<le> e then 2 ^ nat e else 1 / 2 ^ nat (- e))"

definition binade :: "real \<Rightarrow> int" where
  "binade x = bitlen \<lfloor>\<bar>x\<bar> * 2 ^ 1074\<rfloor> - 1075"

definition ulpExp :: "real \<Rightarrow> int" where
  "ulpExp x = max (binade x) (- 1022) - 52"

definition roundEven :: "real \<Rightarrow> int" where
  "roundEven y =
     (let f = \<lfloor>y\<rfloor>; d = y - of_int f in
      if d < 1 / 2 then f
      else if 1 / 2 < d then f + 1
      else if even f then f else f + 1)"

definition roundToDouble :: "real \<Rightarrow> real" where
  "roundToDouble x = of_int (roundEven (x / pow2 (ulpExp x))) * pow2 (ulpExp x)"

text \<open>A real number is a double when rounding leaves it as it is.\<close>

definition isDouble :: "real \<Rightarrow> bool" where
  "isDouble x \<longleftrightarrow> roundToDouble x = x \<and> \<bar>x\<bar> < 2 ^ 1024"

text \<open>The operators \<open>*\<close> and \<open>+\<close> on numbers.\<close>

definition mulDouble :: "real \<Rightarrow> real \<Rightarrow> real" where
  "mulDouble a b = roundToDouble (a * b)"

definition addDouble :: "real \<Rightarrow> real \<Rightarrow> real" where
  "addDouble a b = roundToDouble (a + b)"

section \<open>The heuristic table and the matcher\<close>

record response =
  narrative :: jsstring
  steps :: "jsstring list"

record heuristic = response +
  "keywords" :: "jsstring list"

definition heuristics :: "heuristic list" where
  "heuristics =
    [\<lparr>narrative = js ''You need a structured path. I'll break the objective into phases with crisp deliverables and checkpoints.'',
      steps = [js ''Clarify success metrics and guardrails'',
               js ''Sequence milestones with resource sizing'',
               js ''Highlight dependencies and risk mitigations''],
      keywords = [js ''plan'', js ''roadmap'', js ''milestone'', js ''strategy'']\<rparr>,
     \<lparr>narrative = js ''Let's align voice, audience, and distribution to keep every piece on-message and high leverage.'',
      steps = [js ''Confirm target persona pains and desired outcomes'',
               js ''Outline a reusable pillar/cluster structure'',
               js ''Draft samples with tone, CTA, and repurposing notes''],
      keywords = [js ''content'', js ''write'', js ''copy'', js ''post'']\<rparr>,
     \<lparr>narrative = js ''I'll synthesize signals, highlight patterns, and surface what deserves deeper digging.'',
      steps = [js ''Frame hypotheses and evidence you already have'',
               js ''Collect primary/secondary sources with confidence tiers'',
               js ''Extract insights, contradictions, and suggested experiments''],
      keywords = [js ''research'', js ''analyze'', js ''compare'', js ''study'']\<rparr>,
     \<lparr>narrative = js ''I'll transform requirements into architecture, interfaces, and delivery sequencing.'',
      steps = [js ''Capture user flows and data contracts'',
               js ''Design modular components with integration notes'',
               js ''Plan implementation slices with testing anchors''],
      keywords = [js ''code'', js ''build'', js ''architecture'', js ''feature'']\<rparr>]"

definition defaultResponse :: response where
  "defaultResponse =
    \<lparr>narrative = js ''I'll evaluate the request, stabilize assumptions, and recommend a pragmatic action plan.'',
     steps = [js ''Clarify the core objective and constraints'',
              js ''Identify the most leverage-first deliverables'',
              js ''Provide a tight feedback loop for the next iteration'']\<rparr>"

text \<open>
  \<open>pickNarrative\<close> returns \<open>match ?? defaultResponse\<close>: an entry of the table or the
  default object, which has no keywords. The union of the two object types is the
  datatype \<open>picked\<close>; \<open>narrativeOf\<close> and \<open>stepsOf\<close> read the two fields that the caller
  destructures.
\<close>

datatype picked = Matched heuristic | Fallback response

fun narrativeOf :: "picked \<Rightarrow> jsstring" where
  "narrativeOf (Matched h) = narrative h"
| "narrativeOf (Fallback r) = narrative r"

fun stepsOf :: "picked \<Rightarrow> jsstring list" where
  "stepsOf (Matched h) = steps h"
| "stepsOf (Fallback r) = steps r"

definition pickNarrative :: "jsstring \<Rightarrow> picked" where
  "pickNarrative prompt =
     (let normalized = toLowerCase prompt;
          match = find (\<lambda>candidate. list_ex (\<lambda>keyword. includes_str normalized keyword)
                                            (keywords candidate)) heuristics
      in case match of Some m \<Rightarrow> Matched m | None \<Rightarrow> Fallback defaultResponse)"

text \<open>
  The matcher as the specification words it: a rule matches a normalized input when
  one of its keywords occurs in it as a contiguous substring.
\<close>

definition ruleMatches :: "jsstring \<Rightarrow> heuristic \<Rightarrow> bool" where
  "ruleMatches normalized r \<longleftrightarrow> (\<exists>k \<in> set (keywords r). sublist k normalized)"

section \<open>The message formatter\<close>

datatype Author = User | Agent | System

record Message =
  id' :: jsstring
  author :: Author
  content :: jsstring
  hint :: "jsstring option"
  createdAt :: jsstring

record ModeState =
  analysis :: bool
  planning :: bool
  summary :: bool

definition newline :: jsstring where
  "newline = [0x0A]"

text \<open>
  The list marker of the template in \<open>formatAgentMessage\<close>, as the source file holds
  it: the three code units U+00E2, U+20AC, U+00A2 and a space.
\<close>

definition bullet :: jsstring where
  "bullet = [0xE2, 0x20AC, 0xA2, 0x20]"

text \<open>
  \<open>xs.slice(-2)\<close> starts at \<open>max (length - 2) 0\<close>, which is what the truncating
  subtraction of \<open>nat\<close> computes.
\<close>

definition sliceLast2 :: "'a list \<Rightarrow> 'a list" where
  "sliceLast2 xs = drop (length xs - 2) xs"

text \<open>
  \<open>xs.filter(Boolean)\<close> on an array of strings and \<open>null\<close>: \<open>null\<close> and the empty
  string are falsy and are dropped.
\<close>

fun filterBoolean :: "jsstring option list \<Rightarrow> jsstring list" where
  "filterBoolean [] = []"
| "filterBoolean (None # xs) = filterBoolean xs"
| "filterBoolean (Some s # xs) = (if s = [] then filterBoolean xs else s # filterBoolean xs)"

text \<open>
  \<open>steps[0] ?? fallback\<close>: the first element, or the fallback when the array is empty
  (an empty first step is a string and is kept).
\<close>

fun firstOr :: "jsstring list \<Rightarrow> jsstring \<Rightarrow> jsstring" where
  "firstOr [] fallback = fallback"
| "firstOr (s # _) fallback = s"

definition summarizePrimaryTask :: "jsstring \<Rightarrow> jsstring list \<Rightarrow> jsstring" where
  "summarizePrimaryTask prompt stps =
     (let concise = trim (replaceWhiteSpaceRuns prompt) in
      if concise = [] then firstOr stps (js ''Establishing context'')
      else if length concise < 120 then concise
      else firstOr stps (js ''Defining the objective''))"

text \<open>
  \<open>formatAgentMessage\<close>: the three \<open>if\<close> statements push onto \<open>segments\<close> in turn;
  the model threads the array through \<open>seg0\<close> to \<open>seg3\<close>.
\<close>

definition formatAgentMessage ::
  "jsstring \<Rightarrow> ModeState \<Rightarrow> jsstring \<Rightarrow> jsstring list \<Rightarrow> Message list \<Rightarrow> jsstring" where
  "formatAgentMessage inp md nar stps messageHistory =
     (let reflections =
            join newline
              (map (\<lambda>msg. bullet @ trim (content msg))
                 (sliceLast2 (filter (\<lambda>msg. author msg = User) messageHistory)));
          seg0 = [];
          seg1 =
            (if analysis md then
               seg0 @
               [join newline
                  (filterBoolean
                     [Some (js ''**Analysis**''),
                      Some nar,
                      if reflections \<noteq> [] then Some (js ''Recent signals:'') else None,
                      if reflections \<noteq> [] then Some reflections else None])]
             else seg0);
          seg2 =
            (if planning md then
               seg1 @
               [join newline
                  (js ''**Plan**'' #
                   map (\<lambda>(index, step). digits (index + 1) @ js ''. '' @ step)
                     (enumerate 0 stps))]
             else seg1);
          seg3 =
            (if summary md then
               seg2 @
               [join newline
                  [js ''**Next Move**'',
                   js ''I'll start by focusing on: '' @ summarizePrimaryTask inp stps]]
             else seg2)
      in join (newline @ newline) seg3)"

section \<open>The conversation controller\<close>

text \<open>
  The state of the component \<open>Home\<close>: the four \<open>useState\<close> cells, and the timers
  that \<open>setTimeout\<close> has scheduled and that have not yet run. A timer holds its
  callback, known by the agent message it closes over, and the delay in milliseconds
  that was handed to \<open>setTimeout\<close>. An event handler is taken to run on the state of
  the latest render, one handler at a time. Identifiers, time stamps and the draw of
  \<open>Math.random\<close> come from the host and are arguments of the model. Elapsed time is
  not modelled: a scheduled callback runs at some later event. Scrolling is
  presentation and is left out.
\<close>

record Timer =
  callback :: Message
  delay :: real

record State =
  messages :: "Message list"
  input :: jsstring
  mode :: ModeState
  isThinking :: bool
  timers :: "Timer list"

definition initialMessages :: "jsstring \<Rightarrow> jsstring \<Rightarrow> Message list" where
  "initialMessages gid gtime =
     [\<lparr>id' = gid, author = Agent,
       content = js ''Hey there! I'm Atlas, your autonomous problem-solving agent. Drop a challenge below and I'll break it down, plan my moves, and deliver focused execution steps.'',
       hint = Some (js ''Ready when you are''),
       createdAt = gtime\<rparr>]"

definition initialState :: "jsstring \<Rightarrow> jsstring \<Rightarrow> State" where
  "initialState gid gtime =
     \<lparr>messages = initialMessages gid gtime,
      input = [],
      mode = \<lparr>analysis = True, planning = True, summary = True\<rparr>,
      isThinking = False,
      timers = []\<rparr>"

definition queueUserMessage ::
  "jsstring \<Rightarrow> jsstring \<Rightarrow> jsstring \<Rightarrow> jsstring \<Rightarrow> real \<Rightarrow> State \<Rightarrow> State" where
  "queueUserMessage uid utime aid atime r s =
     (let trimmed = trim (input s) in
      if trimmed = [] \<or> isThinking s then s
      else
        let userMessage =
              \<lparr>id' = uid, author = User, content = trimmed, hint = None, createdAt = utime\<rparr>;
            pick = pickNarrative trimmed;
            agentContent =
              formatAgentMessage trimmed (mode s) (narrativeOf pick) (stepsOf pick)
                (messages s @ [userMessage]);
            agentMessage =
              \<lparr>id' = aid, author = Agent, content = agentContent,
               hint = Some (js ''Calibrated plan ready''), createdAt = atime\<rparr>
        in s\<lparr>messages := messages s @ [userMessage],
             input := [],
             isThinking := True,
             timers := timers s @
               [\<lparr>callback = agentMessage, delay = addDouble 550 (mulDouble r 400)\<rparr>]\<rparr>)"

text \<open>The callback given to \<open>setTimeout\<close>, for the agent message it closes over.\<close>

definition timeoutCallback :: "Message \<Rightarrow> State \<Rightarrow> State" where
  "timeoutCallback agentMessage s =
     s\<lparr>messages := messages s @ [agentMessage], isThinking := False\<rparr>"

datatype ModeKey = AnalysisKey | PlanningKey | SummaryKey

fun toggleMode :: "ModeKey \<Rightarrow> State \<Rightarrow> State" where
  "toggleMode AnalysisKey s = s\<lparr>mode := (mode s)\<lparr>analysis := \<not> analysis (mode s)\<rparr>\<rparr>"
| "toggleMode PlanningKey s = s\<lparr>mode := (mode s)\<lparr>planning := \<not> planning (mode s)\<rparr>\<rparr>"
| "toggleMode SummaryKey s = s\<lparr>mode := (mode s)\<lparr>summary := \<not> summary (mode s)\<rparr>\<rparr>"

definition acceptQuickPrompt :: "jsstring \<Rightarrow> State \<Rightarrow> State" where
  "acceptQuickPrompt prompt s = s\<lparr>input := prompt\<rparr>"

definition setInput :: "jsstring \<Rightarrow> State \<Rightarrow> State" where
  "setInput v s = s\<lparr>input := v\<rparr>"

text \<open>
  The events of the page: typing, a mode toggle, a quick prompt, a submit (the form's
  \<open>onSubmit\<close> and the Enter key both call \<open>queueUserMessage\<close>; the last argument is
  the draw of \<open>Math.random\<close>), and the run of the \<open>i\<close>-th scheduled callback, which
  leaves the schedule.
\<close>

datatype Event =
  Change jsstring
| Toggle ModeKey
| QuickPrompt jsstring
| Submit jsstring jsstring jsstring jsstring real
| Timeout nat

fun step :: "State \<Rightarrow> Event \<Rightarrow> State" where
  "step s (Change v) = setInput v s"
| "step s (Toggle k) = toggleMode k s"
| "step s (QuickPrompt p) = acceptQuickPrompt p s"
| "step s (Submit uid utime aid atime r) = queueUserMessage uid utime aid atime r s"
| "step s (Timeout i) =
     (if i < length (timers s)
      then timeoutCallback (callback (timers s ! i)) (s\<lparr>timers := take i (timers s) @ drop (Suc i) (timers s)\<rparr>)
      else s)"

definition run :: "State \<Rightarrow> Event list \<Rightarrow> State" where
  "run s es = foldl step s es"

section \<open>Notions used in the statements\<close>

text \<open>The three mode records with exactly one flag set.\<close>

definition onlyAnalysis :: ModeState where
  "onlyAnalysis = \<lparr>analysis = True, planning = False, summary = False\<rparr>"

definition onlyPlanning :: ModeState where
  "onlyPlanning = \<lparr>analysis = False, planning = True, summary = False\<rparr>"

definition onlySummary :: ModeState where
  "onlySummary = \<lparr>analysis = False, planning = False, summary = True\<rparr>"

text \<open>The number that a string of decimal digits denotes.\<close>

definition decimalValue :: "jsstring \<Rightarrow> nat" where
  "decimalValue s = foldl (\<lambda>a c. 10 * a + unat (c - 0x30)) 0 s"

text \<open>
  The content of the reply that \<open>queueUserMessage\<close> computes for a trimmed input, the
  mode of the moment and the history handed to the formatter.
\<close>

definition replyContent :: "ModeState \<Rightarrow> jsstring \<Rightarrow> Message list \<Rightarrow> jsstring" where
  "replyContent md trimmed history =
     formatAgentMessage trimmed md (narrativeOf (pickNarrative trimmed))
       (stepsOf (pickNarrative trimmed)) history"

text \<open>
  The message at index \<open>j\<close> answers the message right before it: that one is a user
  message, and the content at \<open>j\<close> is the reply computed from it, for some mode, on the
  history up to and including it.
\<close>

definition repliesTo :: "Message list \<Rightarrow> nat \<Rightarrow> bool" where
  "repliesTo ms j \<longleftrightarrow>
     0 < j \<and> author (ms ! (j - 1)) = User \<and>
     (\<exists>md. content (ms ! j) = replyContent md (content (ms ! (j - 1))) (take j ms))"

text \<open>The same for a reply that is scheduled and not yet appended.\<close>

definition pendingReply :: "Message list \<Rightarrow> Message \<Rightarrow> bool" where
  "pendingReply ms a \<longleftrightarrow>
     author a = Agent \<and> author (last ms) = User \<and>
     (\<exists>md. content a = replyContent md (content (last ms)) ms)"

text \<open>What every reachable state satisfies.\<close>

definition invariant :: "State \<Rightarrow> bool" where
  "invariant s \<longleftrightarrow>
     messages s \<noteq> [] \<and>
     (\<forall>j<length (messages s). 0 < j \<longrightarrow> author (messages s ! j) = Agent \<longrightarrow>
        repliesTo (messages s) j) \<and>
     (isThinking s \<longleftrightarrow> timers s \<noteq> []) \<and>
     length (timers s) \<le> 1 \<and>
     (\<forall>t \<in> set (timers s). pendingReply (messages s) (callback t))"

fun isTimeout :: "Event \<Rightarrow> bool" where
  "isTimeout (Timeout i) = True"
| "isTimeout _ = False"

section \<open>Facts about the string operations\<close>

lemma startsWith_prefix: "startsWith s k \<longleftrightarrow> prefix k s"
  by (induction s k rule: startsWith.induct) auto

lemma includes_str_sublist: "includes_str s k \<longleftrightarrow> sublist k s"
proof (induction s)
  case Nil
  then show ?case by (cases k) simp_all
next
  case (Cons c cs)
  then show ?case
    by (cases k) (simp_all add: startsWith_prefix sublist_Cons_right)
qed

lemma list_ex_includes: "list_ex (includes_str n) ks \<longleftrightarrow> (\<exists>k \<in> set ks. sublist k n)"
  by (simp add: list_ex_iff includes_str_sublist)

lemma find_first_index:
  "find P xs = Some x \<Longrightarrow>
     \<exists>i<length xs. P (xs ! i) \<and> (\<forall>j<i. \<not> P (xs ! j)) \<and> x = xs ! i"
  by (auto simp: find_Some_iff)

lemmas table_defs =
  heuristics_def defaultResponse_def js_def toLowerCase_def toLowerCaseUnit_def

lemmas only_defs = onlyAnalysis_def onlyPlanning_def onlySummary_def

declare digits.simps [simp del]

lemma digits_small: "n < 10 \<Longrightarrow> digits n = [digit n]"
  by (subst digits.simps) simp

lemma digits_large: "\<not> n < 10 \<Longrightarrow> digits n = digits (n div 10) @ [digit (n mod 10)]"
  by (subst digits.simps) simp

lemma unat_digit: "d < 10 \<Longrightarrow> unat (digit d - 0x30) = d"
  by (simp add: digit_def unat_of_nat)

lemma decimalValue_digits: "decimalValue (digits n) = n"
proof (induction n rule: digits.induct)
  case (1 n)
  show ?case
  proof (cases "n < 10")
    case True
    then show ?thesis
      by (simp add: digits_small decimalValue_def unat_digit)
  next
    case False
    with 1 have "decimalValue (digits (n div 10)) = n div 10" by simp
    with False show ?thesis
      by (simp add: digits_large decimalValue_def unat_digit)
  qed
qed

lemma replaceWhiteSpaceRuns_id:
  "\<forall>c \<in> set s. \<not> isWhiteSpace c \<Longrightarrow> replaceWhiteSpaceRuns s = s"
  by (induction s) auto

lemma dropWhile_id: "s \<noteq> [] \<Longrightarrow> \<not> P (hd s) \<Longrightarrow> dropWhile P s = s"
  by (cases s) auto

lemma trim_id:
  assumes "s \<noteq> []" "\<not> isWhiteSpace (hd s)" "\<not> isWhiteSpace (last s)"
  shows "trim s = s"
proof -
  have "dropWhile isWhiteSpace s = s" using assms by (simp add: dropWhile_id)
  moreover have "dropWhile isWhiteSpace (rev s) = rev s"
    using assms by (simp add: dropWhile_id hd_rev)
  ultimately show ?thesis by (simp add: trim_def)
qed

lemma trim_ends:
  assumes "trim s \<noteq> []"
  shows "\<not> isWhiteSpace (hd (trim s))" "\<not> isWhiteSpace (last (trim s))"
proof -
  let ?d = "dropWhile isWhiteSpace s"
  let ?e = "dropWhile isWhiteSpace (rev ?d)"
  from assms have e: "?e \<noteq> []" by (simp add: trim_def)
  have d: "?d \<noteq> []"
  proof
    assume "?d = []"
    then have "?e = []" by (simp only: rev.simps dropWhile.simps)
    with e show False by (simp only:)
  qed
  from e have "\<not> isWhiteSpace (hd ?e)" by (rule hd_dropWhile)
  then show "\<not> isWhiteSpace (last (trim s))"
    using e by (simp add: trim_def last_rev)
  have "last ?e = last (rev ?d)"
  proof -
    obtain p where "rev ?d = p @ ?e"
      by (metis takeWhile_dropWhile_id)
    with e show ?thesis by (metis last_appendR)
  qed
  also have "\<dots> = hd ?d" using d by (simp add: last_rev)
  finally have "hd (trim s) = hd ?d" using e by (simp add: trim_def hd_rev)
  moreover from d have "\<not> isWhiteSpace (hd ?d)" by (rule hd_dropWhile)
  ultimately show "\<not> isWhiteSpace (hd (trim s))" by simp
qed

lemma trim_Nil: "trim [] = []"
  by (simp add: trim_def)

lemma trim_idem: "trim (trim s) = trim s"
proof (cases "trim s = []")
  case True
  with trim_Nil show ?thesis by simp
next
  case False
  then show ?thesis by (intro trim_id trim_ends)
qed

lemma join_nonempty: "xs \<noteq> [] \<Longrightarrow> hd xs \<noteq> [] \<Longrightarrow> join sep xs \<noteq> []"
  by (induction sep xs rule: join.induct) auto

lemma sliceLast2_Nil: "sliceLast2 xs = [] \<longleftrightarrow> xs = []"
  by (cases xs) (auto simp: sliceLast2_def)

lemma sliceLast2_rev:
  "sliceLast2 xs =
     (case rev xs of [] \<Rightarrow> [] | [v] \<Rightarrow> [v] | v # u # _ \<Rightarrow> [u, v])"
proof (cases "rev xs")
  case Nil
  then show ?thesis by (simp add: sliceLast2_def)
next
  case (Cons v r)
  note outer = this
  show ?thesis
  proof (cases r)
    case Nil
    with outer have "xs = [v]" by (simp add: rev_singleton_conv)
    then show ?thesis by (simp add: sliceLast2_def)
  next
    case (Cons u r')
    with outer have "xs = rev r' @ [u, v]"
      by (metis append.assoc append_Cons append_Nil rev.simps(2) rev_rev_ident)
    then show ?thesis using outer Cons by (simp add: sliceLast2_def)
  qed
qed

lemma reflections_empty:
  "join newline (map (\<lambda>msg. bullet @ trim (content msg)) (sliceLast2 us)) = [] \<longleftrightarrow> us = []"
proof (cases "us = []")
  case True
  then show ?thesis by (simp add: sliceLast2_def)
next
  case False
  then have "sliceLast2 us \<noteq> []" by (simp add: sliceLast2_Nil)
  then have "join newline (map (\<lambda>msg. bullet @ trim (content msg)) (sliceLast2 us)) \<noteq> []"
    by (intro join_nonempty) (simp_all add: hd_map bullet_def)
  with False show ?thesis by simp
qed

lemma enumerate_map_index:
  "map f (enumerate n xs) = map (\<lambda>i. f (n + i, xs ! i)) [0..<length xs]"
  by (induction xs arbitrary: n) (auto simp: map_upt_Suc simp del: upt_Suc)

lemma not_ws_letters:
  "\<not> isWhiteSpace 0x78" "\<not> isWhiteSpace 0x61" "\<not> isWhiteSpace 0x62" "isWhiteSpace 0x20"
  by (simp_all add: isWhiteSpace_def)

lemma concise_replicate:
  "0 < n \<Longrightarrow> trim (replaceWhiteSpaceRuns (replicate n 0x78)) = replicate n 0x78"
  by (simp add: replaceWhiteSpaceRuns_id not_ws_letters trim_id hd_replicate last_replicate)

lemma dropWhile_spaces:
  "dropWhile isWhiteSpace (replicate n 0x20 @ [0x62]) = [0x62]"
  by (induction n) (simp_all add: not_ws_letters)

lemma concise_gap:
  "trim (replaceWhiteSpaceRuns (0x61 # replicate (Suc n) 0x20 @ [0x62])) = [0x61, 0x20, 0x62]"
  by (simp add: not_ws_letters dropWhile_spaces trim_id)

lemma trim_gap:
  "trim (0x61 # replicate n 0x20 @ [0x62]) = 0x61 # replicate n 0x20 @ [0x62]"
  by (simp add: not_ws_letters trim_id)

section \<open>Facts about rounding to a double\<close>

lemma pow2_powr: "pow2 e = 2 powr (of_int e)"
  by (simp add: pow2_def powr_int)

lemma pow2_pos: "0 < pow2 e"
  by (simp add: pow2_powr)

lemma pow2_add: "pow2 (a + b) = pow2 a * pow2 b"
  by (simp add: pow2_powr powr_add)

lemma pow2_nat: "0 \<le> e \<Longrightarrow> pow2 e = of_int (2 ^ nat e)"
  by (simp add: pow2_def)

lemma pow2_mono: "a \<le> b \<Longrightarrow> pow2 a \<le> pow2 b"
  by (simp add: pow2_powr)

lemma bitlen_unique:
  assumes "2 ^ b \<le> n" "n < 2 ^ Suc b"
  shows "bitlen n = int (Suc b)"
proof -
  from assms have pos: "0 < n" by (smt (verit) zero_less_power)
  have "(2::real) ^ b \<le> real_of_int n"
    using assms(1) by (metis of_int_le_iff of_int_numeral of_int_power)
  then have A: "2 powr real_of_int (int b) \<le> real_of_int n"
    by (simp add: powr_realpow)
  have "real_of_int n < 2 ^ Suc b"
    using assms(2) by (metis of_int_less_iff of_int_numeral of_int_power)
  then have B: "real_of_int n < 2 powr real_of_int (int b + 1)"
    by (simp add: powr_realpow powr_add)
  from pos have "0 < real_of_int n" by simp
  with A B floor_log_eq_powr_iff [of "real_of_int n" 2 "int b"]
  have "\<lfloor>log 2 (real_of_int n)\<rfloor> = int b" by simp
  with pos show ?thesis by (simp add: bitlen_alt_def)
qed

lemma bitlen_le:
  assumes "n < 2 ^ b"
  shows "bitlen n \<le> int b"
proof (cases "0 < n")
  case False
  then show ?thesis by (simp add: bitlen_alt_def)
next
  case True
  from bitlen_bounds [OF True] have "2 ^ nat (bitlen n - 1) \<le> n" by simp
  from this assms have "(2::int) ^ nat (bitlen n - 1) < 2 ^ b" by (rule le_less_trans)
  then have "nat (bitlen n - 1) < b" by (rule power_less_imp_less_exp [rotated]) simp
  then show ?thesis by simp
qed

text \<open>The binade of a number between two neighbouring powers of two.\<close>

lemma binade_eq:
  assumes "- 1074 \<le> e" "pow2 e \<le> \<bar>x\<bar>" "\<bar>x\<bar> < pow2 (e + 1)"
  shows "binade x = e"
proof -
  define b where "b = nat (e + 1074)"
  have e: "e = int b - 1074" using assms(1) by (simp add: b_def)
  have p: "pow2 e * 2 ^ 1074 = 2 ^ b" "pow2 (e + 1) * 2 ^ 1074 = 2 ^ Suc b"
    unfolding e by (simp_all add: pow2_powr powr_diff powr_add powr_realpow)
  have "(2::real) ^ b \<le> \<bar>x\<bar> * 2 ^ 1074"
    using assms(2) p(1) by (metis mult_right_mono zero_le_numeral zero_le_power)
  then have lo: "(2::int) ^ b \<le> \<lfloor>\<bar>x\<bar> * 2 ^ 1074\<rfloor>"
    by (simp add: le_floor_iff)
  have "\<bar>x\<bar> * 2 ^ 1074 < 2 ^ Suc b"
    using assms(3) p(2) by (metis mult_strict_right_mono zero_less_numeral zero_less_power)
  then have hi: "\<lfloor>\<bar>x\<bar> * 2 ^ 1074\<rfloor> < (2::int) ^ Suc b"
    by (simp add: floor_less_iff)
  from bitlen_unique [OF lo hi] show ?thesis by (simp add: binade_def e)
qed

lemma binade_le:
  assumes "- 1074 \<le> e" "\<bar>x\<bar> < pow2 (e + 1)"
  shows "binade x \<le> e"
proof -
  define b where "b = nat (e + 1075)"
  have e: "e = int b - 1075" using assms(1) by (simp add: b_def)
  have p: "pow2 (e + 1) * 2 ^ 1074 = 2 ^ b"
    unfolding e by (simp add: pow2_powr powr_diff powr_add powr_realpow)
  have "\<bar>x\<bar> * 2 ^ 1074 < 2 ^ b"
    using assms(2) p by (metis mult_strict_right_mono zero_less_numeral zero_less_power)
  then have "\<lfloor>\<bar>x\<bar> * 2 ^ 1074\<rfloor> < (2::int) ^ b"
    by (simp add: floor_less_iff)
  from bitlen_le [OF this] show ?thesis by (simp add: binade_def e)
qed

lemma roundEven_bounds: "\<lfloor>y\<rfloor> \<le> roundEven y" "roundEven y \<le> \<lceil>y\<rceil>"
  by (auto simp add: roundEven_def Let_def ceiling_altdef)

lemma roundEven_error: "\<bar>of_int (roundEven y) - y\<bar> \<le> 1 / 2"
  unfolding roundEven_def Let_def by (auto; linarith)

lemma roundEven_int: "roundEven (of_int k) = k"
  by (simp add: roundEven_def)

lemma roundEven_ge:
  assumes "of_int k \<le> y"
  shows "k \<le> roundEven y"
proof -
  from assms have "k \<le> \<lfloor>y\<rfloor>" by (simp add: le_floor_iff)
  with roundEven_bounds(1) [of y] show ?thesis by simp
qed

lemma roundEven_le:
  assumes "y \<le> of_int k"
  shows "roundEven y \<le> k"
proof -
  from assms have "\<lceil>y\<rceil> \<le> k" by (simp add: ceiling_le_iff)
  with roundEven_bounds(2) [of y] show ?thesis by simp
qed

lemma roundToDouble_at:
  "ulpExp x = k \<Longrightarrow> roundToDouble x = of_int (roundEven (x / pow2 k)) * pow2 k"
  by (simp add: roundToDouble_def)

lemma roundToDouble_exact:
  assumes "ulpExp x = k" "x / pow2 k = of_int m"
  shows "roundToDouble x = x"
proof -
  have "roundToDouble x = of_int m * pow2 k"
    using assms by (simp add: roundToDouble_def roundEven_int)
  also have "\<dots> = x / pow2 k * pow2 k" using assms(2) by simp
  also have "\<dots> = x" using pow2_pos [of k] by simp
  finally show ?thesis .
qed

lemma roundToDouble_error: "\<bar>roundToDouble x - x\<bar> \<le> pow2 (ulpExp x) / 2"
proof -
  let ?u = "pow2 (ulpExp x)"
  have u: "0 < ?u" by (rule pow2_pos)
  have "roundToDouble x - x = (of_int (roundEven (x / ?u)) - x / ?u) * ?u"
    using u by (simp add: roundToDouble_def algebra_simps)
  then have "\<bar>roundToDouble x - x\<bar> = \<bar>of_int (roundEven (x / ?u)) - x / ?u\<bar> * ?u"
    using u by (simp add: abs_mult)
  also have "\<dots> \<le> 1 / 2 * ?u"
    using roundEven_error [of "x / ?u"] u by (intro mult_right_mono) simp_all
  finally show ?thesis by simp
qed

lemma roundToDouble_ge:
  assumes "lo / pow2 (ulpExp x) = of_int a" "lo \<le> x"
  shows "lo \<le> roundToDouble x"
proof -
  let ?u = "pow2 (ulpExp x)"
  have u: "0 < ?u" by (rule pow2_pos)
  from assms(2) u have "lo / ?u \<le> x / ?u" by (simp add: divide_right_mono)
  with assms(1) have "a \<le> roundEven (x / ?u)" by (intro roundEven_ge) simp
  then have "of_int a * ?u \<le> of_int (roundEven (x / ?u)) * ?u"
    using u by (intro mult_right_mono) simp_all
  moreover have "of_int a * ?u = lo" using assms(1) u by (simp add: field_simps)
  ultimately show ?thesis by (simp add: roundToDouble_def)
qed

lemma roundToDouble_le:
  assumes "hi / pow2 (ulpExp x) = of_int a" "x \<le> hi"
  shows "roundToDouble x \<le> hi"
proof -
  let ?u = "pow2 (ulpExp x)"
  have u: "0 < ?u" by (rule pow2_pos)
  from assms(2) u have "x / ?u \<le> hi / ?u" by (simp add: divide_right_mono)
  with assms(1) have "roundEven (x / ?u) \<le> a" by (intro roundEven_le) simp
  then have "of_int (roundEven (x / ?u)) * ?u \<le> of_int a * ?u"
    using u by (intro mult_right_mono) simp_all
  moreover have "of_int a * ?u = hi" using assms(1) u by (simp add: field_simps)
  ultimately show ?thesis by (simp add: roundToDouble_def)
qed

text \<open>Sums between 550 and 950 lie in the binade of 512.\<close>

lemma ulpExp_sum:
  assumes "550 \<le> x" "x \<le> 950"
  shows "ulpExp x = - 43"
proof -
  have "binade x = 9"
    using assms by (intro binade_eq) (simp_all add: pow2_def)
  then show ?thesis by (simp add: ulpExp_def)
qed

lemma sum_range:
  assumes "550 \<le> x" "x \<le> 950"
  shows "550 \<le> roundToDouble x" "roundToDouble x \<le> 950"
    "\<bar>roundToDouble x - x\<bar> \<le> 1 / 2 ^ 44"
proof -
  note u = ulpExp_sum [OF assms]
  show "550 \<le> roundToDouble x"
    by (rule roundToDouble_ge [where a = "550 * 2 ^ 43"]) (simp_all add: u pow2_def assms)
  show "roundToDouble x \<le> 950"
    by (rule roundToDouble_le [where a = "950 * 2 ^ 43"]) (simp_all add: u pow2_def assms)
  show "\<bar>roundToDouble x - x\<bar> \<le> 1 / 2 ^ 44"
    using roundToDouble_error [of x] by (simp add: u pow2_def)
qed

text \<open>Products below 400 lie in the binade of 256 or lower.\<close>

lemma ulpExp_product:
  assumes "0 \<le> x" "x < 400"
  shows "ulpExp x \<le> - 44" "- 1074 \<le> ulpExp x"
proof -
  have "binade x \<le> 8"
    using assms by (intro binade_le) (simp_all add: pow2_def)
  then show "ulpExp x \<le> - 44" "- 1074 \<le> ulpExp x"
    by (simp_all add: ulpExp_def)
qed

lemma product_range:
  assumes "0 \<le> x" "x < 400"
  shows "0 \<le> roundToDouble x" "roundToDouble x \<le> 400"
    "\<bar>roundToDouble x - x\<bar> \<le> 1 / 2 ^ 45"
proof -
  let ?k = "ulpExp x"
  define j where "j = nat (- 44 - ?k)"
  from ulpExp_product(1) [OF assms] have k: "?k = - 44 - int j" by (simp add: j_def)
  have p: "pow2 ?k = 1 / (2 ^ 44 * 2 ^ j)"
    unfolding k by (simp add: pow2_def nat_add_distrib power_add)
  show "0 \<le> roundToDouble x"
    by (rule roundToDouble_ge [where a = 0]) (simp_all add: assms)
  show "roundToDouble x \<le> 400"
    by (rule roundToDouble_le [where a = "400 * 2 ^ 44 * 2 ^ j"]) (use assms in \<open>simp_all add: p\<close>)
  have "pow2 ?k \<le> 1 / 2 ^ 44"
    unfolding p by (simp add: field_simps)
  with roundToDouble_error [of x] show "\<bar>roundToDouble x - x\<bar> \<le> 1 / 2 ^ 45"
    by simp
qed

text \<open>The argument of \<open>setTimeout\<close> for a draw between 0 and 1.\<close>

lemma delay_range:
  assumes "0 \<le> r" "r < 1"
  shows "550 \<le> addDouble 550 (mulDouble r 400)"
    "addDouble 550 (mulDouble r 400) \<le> 950"
    "\<bar>addDouble 550 (mulDouble r 400) - (550 + r * 400)\<bar> \<le> 1 / 2 ^ 43"
proof -
  let ?m = "mulDouble r 400"
  from assms have x: "0 \<le> r * 400" "r * 400 < 400" by simp_all
  note m = product_range [OF x, folded mulDouble_def]
  from m(1,2) have s: "550 \<le> 550 + ?m" "550 + ?m \<le> 950" by simp_all
  note d = sum_range [OF s, folded addDouble_def]
  from d show "550 \<le> addDouble 550 ?m" "addDouble 550 ?m \<le> 950" by simp_all
  have "(1::real) / 2 ^ 44 + 1 / 2 ^ 45 \<le> 1 / 2 ^ 43" by simp
  with d(3) m(3) show "\<bar>addDouble 550 ?m - (550 + r * 400)\<bar> \<le> 1 / 2 ^ 43"
    by linarith
qed

lemma roundEven_down:
  assumes "of_int f \<le> y" "y < of_int f + 1 / 2"
  shows "roundEven y = f"
proof -
  from assms have "\<lfloor>y\<rfloor> = f" by (intro floor_unique) simp_all
  with assms show ?thesis by (simp add: roundEven_def)
qed

lemma roundEven_tie_odd:
  assumes "y = of_int f + 1 / 2" "odd f"
  shows "roundEven y = f + 1"
proof -
  from assms have "\<lfloor>y\<rfloor> = f" by (intro floor_unique) simp_all
  with assms show ?thesis by (simp add: roundEven_def)
qed

lemma largest_draw_double: "isDouble (1 - 1 / 2 ^ 53)"
proof -
  have "binade (1 - 1 / 2 ^ 53) = - 1"
    by (intro binade_eq) (simp_all add: pow2_def)
  then have u: "ulpExp (1 - 1 / 2 ^ 53) = - 53" by (simp add: ulpExp_def)
  have "roundToDouble (1 - 1 / 2 ^ 53) = 1 - 1 / 2 ^ 53"
    by (rule roundToDouble_exact [OF u, where m = "2 ^ 53 - 1"]) (simp add: pow2_def)
  then show ?thesis by (simp add: isDouble_def)
qed

lemma largest_draw_product: "mulDouble (1 - 1 / 2 ^ 53) 400 = 400 - 1 / 2 ^ 44"
proof -
  let ?x = "(1 - 1 / 2 ^ 53) * 400 :: real"
  have "binade ?x = 8"
    by (intro binade_eq) (simp_all add: pow2_def)
  then have u: "ulpExp ?x = - 44" by (simp add: ulpExp_def)
  have r: "roundEven (?x / pow2 (- 44)) = 400 * 2 ^ 44 - 1"
    by (rule roundEven_down) (simp_all add: pow2_def)
  have "roundToDouble ?x = of_int (400 * 2 ^ 44 - 1) * pow2 (- 44)"
    by (simp only: roundToDouble_at [OF u] r)
  also have "\<dots> = 400 - 1 / 2 ^ 44" by (simp add: pow2_def)
  finally show ?thesis by (simp only: mulDouble_def)
qed

lemma largest_draw_delay: "addDouble 550 (mulDouble (1 - 1 / 2 ^ 53) 400) = 950"
proof -
  let ?x = "550 + (400 - 1 / 2 ^ 44) :: real"
  have u: "ulpExp ?x = - 43" by (rule ulpExp_sum) simp_all
  have r: "roundEven (?x / pow2 (- 43)) = (950 * 2 ^ 43 - 1) + 1"
    by (rule roundEven_tie_odd) (simp_all add: pow2_def)
  have "roundToDouble ?x = of_int ((950 * 2 ^ 43 - 1) + 1) * pow2 (- 43)"
    by (simp only: roundToDouble_at [OF u] r)
  also have "\<dots> = 950" by (simp add: pow2_def)
  finally show ?thesis by (simp only: addDouble_def largest_draw_product)
qed

lemma half_draw: "isDouble (1 / 2)" "addDouble 550 (mulDouble (1 / 2) 400) = 750"
proof -
  have "binade (1 / 2) = - 1"
    by (intro binade_eq) (simp_all add: pow2_def)
  then have u: "ulpExp (1 / 2) = - 53" by (simp add: ulpExp_def)
  have "roundToDouble (1 / 2) = 1 / 2"
    by (rule roundToDouble_exact [OF u, where m = "2 ^ 52"]) (simp add: pow2_def)
  then show "isDouble (1 / 2)" by (simp add: isDouble_def)
  have "binade 200 = 7"
    by (intro binade_eq) (simp_all add: pow2_def)
  then have u2: "ulpExp 200 = - 45" by (simp add: ulpExp_def)
  have m: "roundToDouble 200 = 200"
    by (rule roundToDouble_exact [OF u2, where m = "200 * 2 ^ 45"]) (simp add: pow2_def)
  have u3: "ulpExp 750 = - 43" by (rule ulpExp_sum) simp_all
  have "roundToDouble 750 = 750"
    by (rule roundToDouble_exact [OF u3, where m = "750 * 2 ^ 43"]) (simp add: pow2_def)
  with m show "addDouble 550 (mulDouble (1 / 2) 400) = 750"
    by (simp add: addDouble_def mulDouble_def)
qed

section \<open>Facts about the formatter\<close>

lemma format_segments:
  "formatAgentMessage inp md nar stps h =
     join (newline @ newline)
       ((if analysis md then [formatAgentMessage inp onlyAnalysis nar stps h] else []) @
        (if planning md then [formatAgentMessage inp onlyPlanning nar stps h] else []) @
        (if summary md then [formatAgentMessage inp onlySummary nar stps h] else []))"
  by (simp add: formatAgentMessage_def Let_def only_defs)

lemma format_plan:
  "formatAgentMessage inp onlyPlanning nar stps h =
     join newline
       (js ''**Plan**'' # map (\<lambda>i. digits (i + 1) @ js ''. '' @ stps ! i) [0..<length stps])"
  by (simp add: formatAgentMessage_def Let_def only_defs enumerate_map_index)

lemma format_summary:
  "formatAgentMessage inp onlySummary nar stps h =
     js ''**Next Move**'' @ newline @
     js ''I'll start by focusing on: '' @ summarizePrimaryTask inp stps"
  by (simp add: formatAgentMessage_def Let_def only_defs)

lemma format_analysis:
  "formatAgentMessage inp onlyAnalysis nar stps h =
     (let users = filter (\<lambda>msg. author msg = User) h in
      join newline
        ([js ''**Analysis**''] @
         (if nar = [] then [] else [nar]) @
         (if users = [] then []
          else [js ''Recent signals:'',
                join newline (map (\<lambda>msg. bullet @ trim (content msg)) (sliceLast2 users))])))"
  by (simp add: formatAgentMessage_def Let_def only_defs reflections_empty js_def)

lemma pickNarrative_find:
  "pickNarrative prompt =
     (case find (ruleMatches (toLowerCase prompt)) heuristics of
        Some m \<Rightarrow> Matched m | None \<Rightarrow> Fallback defaultResponse)"
proof -
  have "(\<lambda>candidate. list_ex (\<lambda>keyword. includes_str (toLowerCase prompt) keyword)
          (keywords candidate)) = ruleMatches (toLowerCase prompt)"
    by (rule ext) (simp add: ruleMatches_def list_ex_iff includes_str_sublist)
  then show ?thesis
    unfolding pickNarrative_def Let_def by (rule arg_cong)
qed

section \<open>Facts about the controller\<close>

lemma run_Nil [simp]: "run s [] = s"
  by (simp add: run_def)

lemma run_Cons [simp]: "run s (e # es) = run (step s e) es"
  by (simp add: run_def)

lemma run_snoc [simp]: "run s (es @ [e]) = step (run s es) e"
  by (simp add: run_def)

lemma step_prefix: "prefix (messages s) (messages (step s e))"
proof (cases e)
  case (Toggle k)
  then show ?thesis by (cases k) simp_all
next
  case (Submit uid utime aid atime r)
  then show ?thesis by (simp add: queueUserMessage_def Let_def)
qed (simp_all add: setInput_def acceptQuickPrompt_def timeoutCallback_def)

lemma run_prefix: "prefix (messages s) (messages (run s es))"
proof (induction es arbitrary: s)
  case Nil
  show ?case by simp
next
  case (Cons e es)
  have "prefix (messages s) (messages (step s e))" by (rule step_prefix)
  also have "prefix \<dots> (messages (run (step s e) es))" by (rule Cons.IH)
  finally show ?case by simp
qed

lemma repliesTo_append: "j < length ms \<Longrightarrow> repliesTo (ms @ xs) j = repliesTo ms j"
  by (cases j) (simp_all add: repliesTo_def nth_append)

lemma invariant_initial: "invariant (initialState gid gtime)"
  by (simp add: invariant_def initialState_def initialMessages_def)

lemma queueUserMessage_rejected:
  "trim (input s) = [] \<or> isThinking s \<Longrightarrow> queueUserMessage uid utime aid atime r s = s"
  by (auto simp add: queueUserMessage_def Let_def)

lemma queueUserMessage_accepted:
  assumes "trim (input s) \<noteq> []" "\<not> isThinking s"
  shows "queueUserMessage uid utime aid atime r s =
     s\<lparr>messages := messages s @
          [\<lparr>id' = uid, author = User, content = trim (input s), hint = None, createdAt = utime\<rparr>],
       input := [],
       isThinking := True,
       timers := timers s @
          [\<lparr>callback =
              \<lparr>id' = aid, author = Agent,
               content = replyContent (mode s) (trim (input s))
                 (messages s @
                  [\<lparr>id' = uid, author = User, content = trim (input s), hint = None,
                    createdAt = utime\<rparr>]),
               hint = Some (js ''Calibrated plan ready''), createdAt = atime\<rparr>,
            delay = addDouble 550 (mulDouble r 400)\<rparr>]\<rparr>"
  using assms by (simp add: queueUserMessage_def Let_def replyContent_def)

lemma invariant_submit:
  assumes "invariant s"
  shows "invariant (queueUserMessage uid utime aid atime r s)"
proof (cases "trim (input s) = [] \<or> isThinking s")
  case True
  with assms show ?thesis by (simp add: queueUserMessage_rejected)
next
  case False
  then have acc: "trim (input s) \<noteq> []" "\<not> isThinking s" by simp_all
  from assms acc have t: "timers s = []" by (simp add: invariant_def)
  let ?um = "\<lparr>id' = uid, author = User, content = trim (input s), hint = None, createdAt = utime\<rparr>"
  have old: "\<forall>j<length (messages s @ [?um]). 0 < j \<longrightarrow> author ((messages s @ [?um]) ! j) = Agent \<longrightarrow>
        repliesTo (messages s @ [?um]) j"
  proof (intro allI impI)
    fix j assume j: "j < length (messages s @ [?um])" "0 < j"
      and a: "author ((messages s @ [?um]) ! j) = Agent"
    show "repliesTo (messages s @ [?um]) j"
    proof (cases "j < length (messages s)")
      case True
      with a have "author (messages s ! j) = Agent" by (simp add: nth_append)
      with assms True j(2) have "repliesTo (messages s) j" by (simp add: invariant_def)
      with True show ?thesis by (simp add: repliesTo_append)
    next
      case False
      with j have "j = length (messages s)" by simp
      with a show ?thesis by simp
    qed
  qed
  show ?thesis
    unfolding queueUserMessage_accepted [OF acc]
    using old by (auto simp add: invariant_def t pendingReply_def)
qed

lemma invariant_timeout:
  assumes "invariant s"
  shows "invariant (step s (Timeout i))"
proof (cases "i < length (timers s)")
  case False
  with assms show ?thesis by simp
next
  case True
  with assms obtain a where t: "timers s = [a]" and i: "i = 0"
    by (cases "timers s") (auto simp add: invariant_def)
  from assms t have p: "pendingReply (messages s) (callback a)" and ne: "messages s \<noteq> []"
    by (simp_all add: invariant_def)
  have new: "repliesTo (messages s @ [callback a]) (length (messages s))"
    using p ne by (simp add: repliesTo_def pendingReply_def nth_append last_conv_nth)
  have "\<forall>j<length (messages s @ [callback a]). 0 < j \<longrightarrow> author ((messages s @ [callback a]) ! j) = Agent \<longrightarrow>
        repliesTo (messages s @ [callback a]) j"
  proof (intro allI impI)
    fix j assume j: "j < length (messages s @ [callback a])" "0 < j"
      and a: "author ((messages s @ [callback a]) ! j) = Agent"
    show "repliesTo (messages s @ [callback a]) j"
    proof (cases "j < length (messages s)")
      case True
      with a have "author (messages s ! j) = Agent" by (simp add: nth_append)
      with assms True j(2) have "repliesTo (messages s) j" by (simp add: invariant_def)
      with True show ?thesis by (simp add: repliesTo_append)
    next
      case False
      with j have "j = length (messages s)" by simp
      with new show ?thesis by simp
    qed
  qed
  then show ?thesis
    using t i by (simp add: invariant_def timeoutCallback_def)
qed

lemma invariant_step: "invariant s \<Longrightarrow> invariant (step s e)"
proof (cases e)
  case (Toggle k)
  assume "invariant s"
  with Toggle show ?thesis by (cases k) (simp_all add: invariant_def)
next
  case (Submit uid utime aid atime r)
  assume "invariant s"
  with Submit show ?thesis by (simp add: invariant_submit)
next
  case (Timeout i)
  assume "invariant s"
  with Timeout show ?thesis by (simp only: invariant_timeout)
qed (simp_all add: invariant_def setInput_def acceptQuickPrompt_def)

lemma invariant_run: "invariant s \<Longrightarrow> invariant (run s es)"
  by (induction es arbitrary: s) (simp_all add: invariant_step)

lemma invariant_reachable: "invariant (run (initialState gid gtime) es)"
  by (simp add: invariant_run invariant_initial)

lemma run_append: "run s (es @ es') = run (run s es) es'"
  by (simp add: run_def)

lemma hd_prefix: "xs \<noteq> [] \<Longrightarrow> prefix xs ys \<Longrightarrow> hd ys = hd xs"
  by (auto simp: prefix_def)

lemma pending_step:
  "isThinking s \<Longrightarrow> \<not> isTimeout e \<Longrightarrow>
     messages (step s e) = messages s \<and> timers (step s e) = timers s \<and> isThinking (step s e)"
proof (cases e)
  case (Toggle k)
  assume "isThinking s"
  with Toggle show ?thesis by (cases k) simp_all
qed (simp_all add: setInput_def acceptQuickPrompt_def queueUserMessage_rejected)

lemma pending_run:
  "isThinking s \<Longrightarrow> \<forall>e \<in> set es. \<not> isTimeout e \<Longrightarrow>
     messages (run s es) = messages s \<and> timers (run s es) = timers s \<and> isThinking (run s es)"
proof (induction es arbitrary: s)
  case Nil
  then show ?case by simp
next
  case (Cons e es)
  from Cons.prems have "messages (step s e) = messages s \<and> timers (step s e) = timers s \<and>
      isThinking (step s e)"
    by (intro pending_step) simp_all
  moreover with Cons.prems have "messages (run (step s e) es) = messages (step s e) \<and>
      timers (run (step s e) es) = timers (step s e) \<and> isThinking (run (step s e) es)"
    by (intro Cons.IH) simp_all
  ultimately show ?case by simp
qed

text \<open>An accepted submit in a reachable state, whatever happens before the callback runs.\<close>

lemma submit_then_timeout:
  assumes inv: "invariant s"
    and acc: "trim (input s) \<noteq> []" "\<not> isThinking s"
    and es: "\<forall>e \<in> set es. \<not> isTimeout e"
  shows "messages (run s (Submit uid utime aid atime r # es @ [Timeout 0])) =
     messages s @
       [\<lparr>id' = uid, author = User, content = trim (input s), hint = None, createdAt = utime\<rparr>,
        \<lparr>id' = aid, author = Agent,
         content = replyContent (mode s) (trim (input s))
           (messages s @
            [\<lparr>id' = uid, author = User, content = trim (input s), hint = None, createdAt = utime\<rparr>]),
         hint = Some (js ''Calibrated plan ready''), createdAt = atime\<rparr>]"
proof -
  let ?s1 = "step s (Submit uid utime aid atime r)"
  from inv acc have t: "timers s = []" by (simp add: invariant_def)
  have s1: "isThinking ?s1" by (simp add: queueUserMessage_accepted [OF acc])
  from pending_run [OF s1 es]
  have "messages (run ?s1 es) = messages ?s1" "timers (run ?s1 es) = timers ?s1" by simp_all
  then show ?thesis
    by (simp add: queueUserMessage_accepted [OF acc] t timeoutCallback_def)
qed

lemma narratives_nonempty: "\<forall>h \<in> set heuristics. narrative h \<noteq> []"
  by (simp add: heuristics_def js_def)

lemma narrativeOf_pick_nonempty: "narrativeOf (pickNarrative p) \<noteq> []"
proof (cases "find (ruleMatches (toLowerCase p)) heuristics")
  case None
  then show ?thesis by (simp add: pickNarrative_find defaultResponse_def js_def)
next
  case (Some m)
  then have "m \<in> set heuristics" by (auto simp: find_Some_iff)
  with narratives_nonempty have "narrative m \<noteq> []" by blast
  with Some show ?thesis by (simp add: pickNarrative_find)
qed

lemma format_analysis_first:
  "analysis md \<Longrightarrow>
     formatAgentMessage inp md nar stps h =
       formatAgentMessage inp onlyAnalysis nar stps h @
       (if planning md \<or> summary md
        then newline @ newline @ formatAgentMessage inp (md\<lparr>analysis := False\<rparr>) nar stps h
        else [])"
  by (simp add: format_segments [of inp md] format_segments [of inp "md\<lparr>analysis := False\<rparr>"])

lemma format_analysis_current:
  assumes "author um = User" "nar \<noteq> []"
  shows "formatAgentMessage inp onlyAnalysis nar stps (ms @ [um]) =
     js ''**Analysis**'' @ newline @ nar @ newline @ js ''Recent signals:'' @ newline @
     (case rev (filter (\<lambda>msg. author msg = User) ms) of
        [] \<Rightarrow> []
      | u # _ \<Rightarrow> bullet @ trim (content u) @ newline) @
     bullet @ trim (content um)"
  using assms by (simp add: format_analysis Let_def sliceLast2_rev split: list.splits)

lemma trim_plan: "trim (js ''plan'') = js ''plan''" "trim (js '' plan '') = js ''plan''"
  "trim (js ''   '') = []" "js ''plan'' \<noteq> []"
  by (simp_all add: js_def trim_def isWhiteSpace_def)

lemma pick_plan: "pickNarrative (js ''plan'') = Matched (heuristics ! 0)"
  by (simp add: pickNarrative_def table_defs)

section \<open>The matcher returns the first matching rule\<close>

text \<open>
  C1. For every input string, \<open>pickNarrative\<close> lowercases the input and returns the
  first rule of the table, in table order, one of whose keywords occurs as a substring
  of the lowercased input: there is an index \<open>i\<close> whose rule matches, no rule before
  \<open>i\<close> matches, and the result is the rule at \<open>i\<close>. When no rule of the table matches,
  the result is the fixed default. One of the two cases always holds, so a rule is
  returned for every input.
\<close>

theorem pickNarrative_first_match:
  "(\<exists>i<length heuristics.
       ruleMatches (toLowerCase prompt) (heuristics ! i) \<and>
       (\<forall>j<i. \<not> ruleMatches (toLowerCase prompt) (heuristics ! j)) \<and>
       pickNarrative prompt = Matched (heuristics ! i)) \<or>
   ((\<forall>r \<in> set heuristics. \<not> ruleMatches (toLowerCase prompt) r) \<and>
    pickNarrative prompt = Fallback defaultResponse)"
proof (cases "find (ruleMatches (toLowerCase prompt)) heuristics")
  case None
  then have "\<forall>r \<in> set heuristics. \<not> ruleMatches (toLowerCase prompt) r"
    by (simp add: find_None_iff)
  moreover from None have "pickNarrative prompt = Fallback defaultResponse"
    by (simp add: pickNarrative_find)
  ultimately show ?thesis by (rule_tac disjI2) simp
next
  case (Some m)
  from find_first_index [OF Some] obtain i where i:
    "i < length heuristics" "ruleMatches (toLowerCase prompt) (heuristics ! i)"
    "\<forall>j<i. \<not> ruleMatches (toLowerCase prompt) (heuristics ! j)"
    "m = heuristics ! i" by blast
  from Some i(4) have "pickNarrative prompt = Matched (heuristics ! i)"
    by (simp add: pickNarrative_find)
  with i(1-3) show ?thesis by (intro disjI1 exI [of _ i]) simp
qed

text \<open>
  The input \<open>Write a Plan\<close> holds a keyword of the first rule and one of the second:
  the first rule is returned. The input \<open>Hello\<close> holds none: the default is returned.
  The first quick prompt of the page holds \<open>plan\<close> and gets the first rule.
\<close>

theorem pickNarrative_first_match_witness:
  "pickNarrative (js ''Write a Plan'') = Matched (heuristics ! 0) \<and>
   ruleMatches (toLowerCase (js ''Write a Plan'')) (heuristics ! 0) \<and>
   ruleMatches (toLowerCase (js ''Write a Plan'')) (heuristics ! 1) \<and>
   pickNarrative (js ''Hello'') = Fallback defaultResponse \<and>
   \<not> ruleMatches (toLowerCase (js ''Hello'')) (heuristics ! 3) \<and>
   pickNarrative (js ''Design a launch plan for a new productivity SaaS'') =
     Matched (heuristics ! 0)"
proof -
  have quick: "pickNarrative (js ''Design a launch plan for a new productivity SaaS'') =
      Matched (heuristics ! 0)"
    by (simp add: pickNarrative_def table_defs)
  have first: "pickNarrative (js ''Write a Plan'') = Matched (heuristics ! 0)"
    by (simp add: pickNarrative_def table_defs)
  have "list_ex (includes_str (toLowerCase (js ''Write a Plan''))) (keywords (heuristics ! 1))"
    by (simp add: table_defs)
  then have second: "ruleMatches (toLowerCase (js ''Write a Plan'')) (heuristics ! 1)"
    by (simp add: ruleMatches_def list_ex_includes)
  have none: "pickNarrative (js ''Hello'') = Fallback defaultResponse"
    by (simp add: pickNarrative_def table_defs)
  have last: "heuristics ! 3 \<in> set heuristics"
    by (rule nth_mem) (simp add: heuristics_def)
  from pickNarrative_first_match [of "js ''Write a Plan''"] first
  have "ruleMatches (toLowerCase (js ''Write a Plan'')) (heuristics ! 0)"
    by auto
  moreover from pickNarrative_first_match [of "js ''Hello''"] none last
  have "\<not> ruleMatches (toLowerCase (js ''Hello'')) (heuristics ! 3)"
    by auto
  ultimately show ?thesis using first second none quick by blast
qed

section \<open>The primary task of the Next Move segment\<close>

text \<open>
  C2, as the code has it. \<open>summarizePrimaryTask\<close> returns the whitespace-collapsed,
  trimmed prompt when that is nonempty and shorter than 120 code units; otherwise the
  first plan step when there is one; otherwise a phrase that depends on the case:
  \<open>Establishing context\<close> when the collapsed prompt is empty, \<open>Defining the objective\<close>
  when it has 120 code units or more. For an input whose whitespace-collapsed, trimmed
  form has length 150 and the steps A, B, C, the Next Move segment is its label line
  followed by the line \<open>I'll start by focusing on: A\<close>.
\<close>

theorem summarizePrimaryTask_cases:
  "summarizePrimaryTask prompt stps =
     (let concise = trim (replaceWhiteSpaceRuns prompt) in
      if concise \<noteq> [] \<and> length concise < 120 then concise
      else case stps of
             s # _ \<Rightarrow> s
           | [] \<Rightarrow> if concise = [] then js ''Establishing context''
                   else js ''Defining the objective'') \<and>
   (length (trim (replaceWhiteSpaceRuns prompt)) = 150 \<longrightarrow>
      formatAgentMessage prompt onlySummary nar [js ''A'', js ''B'', js ''C''] h =
        js ''**Next Move**'' @ newline @ js ''I'll start by focusing on: A'')"
proof (intro conjI impI)
  show "summarizePrimaryTask prompt stps =
     (let concise = trim (replaceWhiteSpaceRuns prompt) in
      if concise \<noteq> [] \<and> length concise < 120 then concise
      else case stps of
             s # _ \<Rightarrow> s
           | [] \<Rightarrow> if concise = [] then js ''Establishing context''
                   else js ''Defining the objective'')"
    by (cases stps) (simp_all add: summarizePrimaryTask_def Let_def)
next
  assume "length (trim (replaceWhiteSpaceRuns prompt)) = 150"
  then show "formatAgentMessage prompt onlySummary nar [js ''A'', js ''B'', js ''C''] h =
        js ''**Next Move**'' @ newline @ js ''I'll start by focusing on: A''"
    by (auto simp add: format_summary summarizePrimaryTask_def Let_def js_def)
qed

text \<open>
  A prompt of 150 letters \<open>x\<close> falls back to the first step; a short prompt with a
  double space and a trailing space is returned collapsed and trimmed.
\<close>

theorem summarizePrimaryTask_cases_witness:
  "length (trim (replaceWhiteSpaceRuns (replicate 150 0x78))) = 150 \<and>
   formatAgentMessage (replicate 150 0x78) onlySummary [] [js ''A'', js ''B'', js ''C''] [] =
     js ''**Next Move**'' @ newline @ js ''I'll start by focusing on: A'' \<and>
   summarizePrimaryTask (js ''map  the sprint '') [js ''A''] = js ''map the sprint''"
proof -
  have len: "length (trim (replaceWhiteSpaceRuns (replicate 150 0x78))) = 150"
    by (simp add: concise_replicate)
  have "trim (replaceWhiteSpaceRuns (js ''map  the sprint '')) = js ''map the sprint''"
    by (simp add: js_def isWhiteSpace_def trim_def)
  with summarizePrimaryTask_cases [of "js ''map  the sprint ''" "[js ''A'']"]
  have "summarizePrimaryTask (js ''map  the sprint '') [js ''A''] = js ''map the sprint''"
    by (simp add: js_def)
  with len summarizePrimaryTask_cases [of "replicate 150 0x78" "[]" "[]" "[]"]
  show ?thesis by simp
qed

text \<open>
  The claim as worded fails in two places. With no steps, the fallback phrase is not
  one fixed phrase: the empty prompt and a prompt of 120 letters give different
  phrases. And an input whose trimmed form has length 150 need not fall back to the
  first step: the letter \<open>a\<close>, 148 spaces and the letter \<open>b\<close> is its own trimmed form,
  of length 150, and collapses to \<open>a b\<close>, which is named as the primary task.
\<close>

theorem summarizePrimaryTask_counterexample:
  "summarizePrimaryTask [] [] = js ''Establishing context'' \<and>
   summarizePrimaryTask (replicate 120 0x78) [] = js ''Defining the objective'' \<and>
   js ''Establishing context'' \<noteq> js ''Defining the objective'' \<and>
   length (trim (0x61 # replicate 148 0x20 @ [0x62])) = 150 \<and>
   formatAgentMessage (0x61 # replicate 148 0x20 @ [0x62]) onlySummary []
       [js ''A'', js ''B'', js ''C''] [] =
     js ''**Next Move**'' @ newline @ js ''I'll start by focusing on: a b''"
proof (intro conjI)
  show "summarizePrimaryTask [] [] = js ''Establishing context''"
    by (simp add: summarizePrimaryTask_def trim_Nil)
  show "summarizePrimaryTask (replicate 120 0x78) [] = js ''Defining the objective''"
    by (simp add: summarizePrimaryTask_def concise_replicate)
  show "js ''Establishing context'' \<noteq> js ''Defining the objective''"
    by (simp add: js_def)
  show "length (trim (0x61 # replicate 148 0x20 @ [0x62])) = 150"
    by (simp add: trim_gap)
  have "trim (replaceWhiteSpaceRuns (0x61 # replicate 148 0x20 @ [0x62])) = [0x61, 0x20, 0x62]"
    using concise_gap [of 147] by simp
  then show "formatAgentMessage (0x61 # replicate 148 0x20 @ [0x62]) onlySummary []
       [js ''A'', js ''B'', js ''C''] [] =
     js ''**Next Move**'' @ newline @ js ''I'll start by focusing on: a b''"
    by (simp add: format_summary summarizePrimaryTask_def js_def)
qed

section \<open>The Analysis segment\<close>

text \<open>
  C3. With only the analysis flag set, the output is the Analysis segment: its label
  line, the narrative (a line of its own unless it is empty), and then, if and only if
  the history holds a message of author user, the line \<open>Recent signals:\<close> and one
  marked line for each of the last two user messages (for the only one when there is
  one), holding the trimmed content, in history order. Whenever the analysis flag is set
  the output starts with this segment, followed by a blank line and the other segments
  when another flag is set. With only the analysis flag set and an empty history the
  output is the label line and the narrative, with no \<open>Recent signals\<close> block.
\<close>

theorem formatAgentMessage_analysis:
  "formatAgentMessage inp onlyAnalysis nar stps h =
     join newline
       ([js ''**Analysis**''] @
        (if nar = [] then [] else [nar]) @
        (case rev (filter (\<lambda>msg. author msg = User) h) of
           [] \<Rightarrow> []
         | [v] \<Rightarrow> [js ''Recent signals:'', bullet @ trim (content v)]
         | v # u # _ \<Rightarrow>
             [js ''Recent signals:'',
              bullet @ trim (content u) @ newline @ bullet @ trim (content v)])) \<and>
   (analysis md \<longrightarrow>
      formatAgentMessage inp md nar stps h =
        formatAgentMessage inp onlyAnalysis nar stps h @
        (if planning md \<or> summary md
         then newline @ newline @ formatAgentMessage inp (md\<lparr>analysis := False\<rparr>) nar stps h
         else [])) \<and>
   (nar \<noteq> [] \<longrightarrow>
      formatAgentMessage inp onlyAnalysis nar stps [] = js ''**Analysis**'' @ newline @ nar)"
proof (intro conjI impI)
  show "formatAgentMessage inp onlyAnalysis nar stps h =
     join newline
       ([js ''**Analysis**''] @
        (if nar = [] then [] else [nar]) @
        (case rev (filter (\<lambda>msg. author msg = User) h) of
           [] \<Rightarrow> []
         | [v] \<Rightarrow> [js ''Recent signals:'', bullet @ trim (content v)]
         | v # u # _ \<Rightarrow>
             [js ''Recent signals:'',
              bullet @ trim (content u) @ newline @ bullet @ trim (content v)]))"
    by (simp add: format_analysis Let_def sliceLast2_rev split: list.splits)
next
  assume "analysis md"
  then show "formatAgentMessage inp md nar stps h =
        formatAgentMessage inp onlyAnalysis nar stps h @
        (if planning md \<or> summary md
         then newline @ newline @ formatAgentMessage inp (md\<lparr>analysis := False\<rparr>) nar stps h
         else [])"
    by (simp add: format_segments [of inp md] format_segments [of inp "md\<lparr>analysis := False\<rparr>"])
next
  assume "nar \<noteq> []"
  then show "formatAgentMessage inp onlyAnalysis nar stps [] = js ''**Analysis**'' @ newline @ nar"
    by (simp add: format_analysis)
qed

text \<open>
  A history of five messages, three of them of author user: the last two are listed,
  trimmed. With the planning flag also set the Analysis segment comes first.
\<close>

theorem formatAgentMessage_analysis_witness:
  "formatAgentMessage (js ''q'') onlyAnalysis (js ''N'') []
     [\<lparr>id' = [], author = Agent, content = js ''x'', hint = None, createdAt = []\<rparr>,
      \<lparr>id' = [], author = User, content = js '' hi '', hint = None, createdAt = []\<rparr>,
      \<lparr>id' = [], author = User, content = js ''a'', hint = None, createdAt = []\<rparr>,
      \<lparr>id' = [], author = Agent, content = js ''y'', hint = None, createdAt = []\<rparr>,
      \<lparr>id' = [], author = User, content = js ''b '', hint = None, createdAt = []\<rparr>] =
     js ''**Analysis**'' @ newline @ js ''N'' @ newline @ js ''Recent signals:'' @ newline @
     bullet @ js ''a'' @ newline @ bullet @ js ''b'' \<and>
   formatAgentMessage (js ''q'') \<lparr>analysis = True, planning = True, summary = False\<rparr> (js ''N'') [] [] =
     formatAgentMessage (js ''q'') onlyAnalysis (js ''N'') [] [] @ newline @ newline @
     formatAgentMessage (js ''q'') \<lparr>analysis = False, planning = True, summary = False\<rparr> (js ''N'') [] [] \<and>
   formatAgentMessage (js ''q'') onlyAnalysis (js ''N'') [] [] = js ''**Analysis**'' @ newline @ js ''N''"
proof -
  have t: "trim (js ''a'') = js ''a''" "trim (js ''b '') = js ''b''"
    by (simp_all add: js_def trim_def isWhiteSpace_def)
  have n: "js ''N'' \<noteq> []"
    by (simp add: js_def)
  note inst = formatAgentMessage_analysis [of "js ''q''" "js ''N''" "[]"]
  from inst [of "[\<lparr>id' = [], author = Agent, content = js ''x'', hint = None, createdAt = []\<rparr>,
      \<lparr>id' = [], author = User, content = js '' hi '', hint = None, createdAt = []\<rparr>,
      \<lparr>id' = [], author = User, content = js ''a'', hint = None, createdAt = []\<rparr>,
      \<lparr>id' = [], author = Agent, content = js ''y'', hint = None, createdAt = []\<rparr>,
      \<lparr>id' = [], author = User, content = js ''b '', hint = None, createdAt = []\<rparr>]"
      "\<lparr>analysis = True, planning = True, summary = False\<rparr>"]
  have first: "formatAgentMessage (js ''q'') onlyAnalysis (js ''N'') []
     [\<lparr>id' = [], author = Agent, content = js ''x'', hint = None, createdAt = []\<rparr>,
      \<lparr>id' = [], author = User, content = js '' hi '', hint = None, createdAt = []\<rparr>,
      \<lparr>id' = [], author = User, content = js ''a'', hint = None, createdAt = []\<rparr>,
      \<lparr>id' = [], author = Agent, content = js ''y'', hint = None, createdAt = []\<rparr>,
      \<lparr>id' = [], author = User, content = js ''b '', hint = None, createdAt = []\<rparr>] =
     js ''**Analysis**'' @ newline @ js ''N'' @ newline @ js ''Recent signals:'' @ newline @
     bullet @ js ''a'' @ newline @ bullet @ js ''b''"
    using n by (simp add: t)
  from inst [of "[]" "\<lparr>analysis = True, planning = True, summary = False\<rparr>"] n
  have rest: "formatAgentMessage (js ''q'') \<lparr>analysis = True, planning = True, summary = False\<rparr> (js ''N'') [] [] =
     formatAgentMessage (js ''q'') onlyAnalysis (js ''N'') [] [] @ newline @ newline @
     formatAgentMessage (js ''q'') \<lparr>analysis = False, planning = True, summary = False\<rparr> (js ''N'') [] []"
    "formatAgentMessage (js ''q'') onlyAnalysis (js ''N'') [] [] = js ''**Analysis**'' @ newline @ js ''N''"
    by simp_all
  from first rest show ?thesis by (intro conjI)
qed

section \<open>All flags off\<close>

text \<open>
  C6. When the analysis, planning and summary flags are all false,
  \<open>formatAgentMessage\<close> returns the empty string, whatever the input, the narrative,
  the steps and the history.
\<close>

theorem formatAgentMessage_all_off:
  "\<not> analysis md \<Longrightarrow> \<not> planning md \<Longrightarrow> \<not> summary md \<Longrightarrow>
     formatAgentMessage inp md nar stps h = []"
  by (simp add: formatAgentMessage_def Let_def)

theorem formatAgentMessage_all_off_witness:
  "formatAgentMessage (js ''plan'') \<lparr>analysis = False, planning = False, summary = False\<rparr>
     (js ''N'') [js ''A''] [] = []"
  using formatAgentMessage_all_off
    [of "\<lparr>analysis = False, planning = False, summary = False\<rparr>" "js ''plan''" "js ''N''" "[js ''A'']" "[]"]
  by simp

section \<open>The segments and their order\<close>

text \<open>
  C7. For every combination of flags the output is the join, with a blank line
  between neighbours, of the segments whose flag is set, in the order Analysis, Plan,
  Next Move; a segment is what the formatter returns when only its flag is set. The
  Plan segment is its label line followed by one line for each step, in the steps'
  order, the line of the step at index \<open>i\<close> starting with the decimal numeral of
  \<open>i + 1\<close>, a full stop and a space.
\<close>

theorem formatAgentMessage_segments:
  "formatAgentMessage inp md nar stps h =
     join (newline @ newline)
       ((if analysis md then [formatAgentMessage inp onlyAnalysis nar stps h] else []) @
        (if planning md then [formatAgentMessage inp onlyPlanning nar stps h] else []) @
        (if summary md then [formatAgentMessage inp onlySummary nar stps h] else [])) \<and>
   formatAgentMessage inp onlyPlanning nar stps h =
     join newline
       (js ''**Plan**'' # map (\<lambda>i. digits (i + 1) @ js ''. '' @ stps ! i) [0..<length stps]) \<and>
   decimalValue (digits (i + 1)) = i + 1"
  using format_segments [of inp md nar stps h] format_plan [of inp nar stps h]
    decimalValue_digits [of "i + 1"]
  by (intro conjI)

text \<open>All three flags set, and the planning flag alone cleared, on two steps.\<close>

theorem formatAgentMessage_segments_witness:
  "formatAgentMessage (js ''hi'') \<lparr>analysis = True, planning = True, summary = True\<rparr>
     (js ''N'') [js ''A'', js ''B''] [] =
     js ''**Analysis**'' @ newline @ js ''N'' @ newline @ newline @
     js ''**Plan**'' @ newline @ js ''1. A'' @ newline @ js ''2. B'' @ newline @ newline @
     js ''**Next Move**'' @ newline @ js ''I'll start by focusing on: hi'' \<and>
   formatAgentMessage (js ''hi'') \<lparr>analysis = True, planning = False, summary = True\<rparr>
     (js ''N'') [js ''A'', js ''B''] [] =
     js ''**Analysis**'' @ newline @ js ''N'' @ newline @ newline @
     js ''**Next Move**'' @ newline @ js ''I'll start by focusing on: hi''"
proof -
  have a: "formatAgentMessage (js ''hi'') onlyAnalysis (js ''N'') [js ''A'', js ''B''] [] =
      js ''**Analysis**'' @ newline @ js ''N''"
    by (simp add: format_analysis js_def)
  have p: "formatAgentMessage (js ''hi'') onlyPlanning (js ''N'') [js ''A'', js ''B''] [] =
      js ''**Plan**'' @ newline @ js ''1. A'' @ newline @ js ''2. B''"
    by (simp add: format_plan digits_small digit_def js_def upt_rec)
  have "trim (replaceWhiteSpaceRuns (js ''hi'')) = js ''hi''"
    by (simp add: js_def isWhiteSpace_def trim_def)
  then have s: "formatAgentMessage (js ''hi'') onlySummary (js ''N'') [js ''A'', js ''B''] [] =
      js ''**Next Move**'' @ newline @ js ''I'll start by focusing on: hi''"
    by (simp add: format_summary summarizePrimaryTask_def js_def)
  from formatAgentMessage_segments
    [of "js ''hi''" "\<lparr>analysis = True, planning = True, summary = True\<rparr>" "js ''N''"
        "[js ''A'', js ''B'']" "[]" 0]
  have "formatAgentMessage (js ''hi'') \<lparr>analysis = True, planning = True, summary = True\<rparr>
     (js ''N'') [js ''A'', js ''B''] [] =
     js ''**Analysis**'' @ newline @ js ''N'' @ newline @ newline @
     js ''**Plan**'' @ newline @ js ''1. A'' @ newline @ js ''2. B'' @ newline @ newline @
     js ''**Next Move**'' @ newline @ js ''I'll start by focusing on: hi''"
    by (simp add: a p s)
  moreover from formatAgentMessage_segments
    [of "js ''hi''" "\<lparr>analysis = True, planning = False, summary = True\<rparr>" "js ''N''"
        "[js ''A'', js ''B'']" "[]" 0]
  have "formatAgentMessage (js ''hi'') \<lparr>analysis = True, planning = False, summary = True\<rparr>
     (js ''N'') [js ''A'', js ''B''] [] =
     js ''**Analysis**'' @ newline @ js ''N'' @ newline @ newline @
     js ''**Next Move**'' @ newline @ js ''I'll start by focusing on: hi''"
    by (simp add: a s)
  ultimately show ?thesis by (rule conjI)
qed

section \<open>The conversation only grows, and replies follow their prompts\<close>

text \<open>
  C4, as the code has it. A reachable state is the state after a list of events from
  the initial state. In every reachable state the message sequence only grows at its
  end: whatever events follow, the messages so far stay as they are and where they
  are, as a prefix of the later sequence. The first message is the initial greeting,
  an agent message that no user message triggered. Every other agent message comes
  right after a user message and is the reply to it: its content is what the formatter
  returns for that user message on the history up to and including it.
\<close>

theorem conversation_append_ordered:
  "prefix (messages (run (initialState gid gtime) es))
          (messages (run (initialState gid gtime) (es @ es'))) \<and>
   hd (messages (run (initialState gid gtime) es)) = hd (initialMessages gid gtime) \<and>
   (\<forall>j<length (messages (run (initialState gid gtime) es)).
      0 < j \<longrightarrow> author (messages (run (initialState gid gtime) es) ! j) = Agent \<longrightarrow>
      repliesTo (messages (run (initialState gid gtime) es)) j)"
proof (intro conjI)
  show "prefix (messages (run (initialState gid gtime) es))
          (messages (run (initialState gid gtime) (es @ es')))"
    by (simp add: run_append run_prefix)
  have "prefix (messages (initialState gid gtime)) (messages (run (initialState gid gtime) es))"
    by (rule run_prefix)
  then show "hd (messages (run (initialState gid gtime) es)) = hd (initialMessages gid gtime)"
    by (intro hd_prefix) (simp_all add: initialState_def initialMessages_def)
  show "\<forall>j<length (messages (run (initialState gid gtime) es)).
      0 < j \<longrightarrow> author (messages (run (initialState gid gtime) es) ! j) = Agent \<longrightarrow>
      repliesTo (messages (run (initialState gid gtime) es)) j"
    using invariant_reachable [of gid gtime es] by (simp add: invariant_def)
qed

text \<open>
  A submit of \<open>plan\<close> and the run of its callback: three messages, the greeting, the
  user message and its reply.
\<close>

theorem conversation_append_ordered_witness:
  "length (messages (run (initialState [] []) [Change (js ''plan''), Submit [] [] [] [] 0, Timeout 0])) = 3 \<and>
   author (messages (run (initialState [] []) [Change (js ''plan''), Submit [] [] [] [] 0, Timeout 0]) ! 1) = User \<and>
   author (messages (run (initialState [] []) [Change (js ''plan''), Submit [] [] [] [] 0, Timeout 0]) ! 2) = Agent \<and>
   repliesTo (messages (run (initialState [] []) [Change (js ''plan''), Submit [] [] [] [] 0, Timeout 0])) 2"
proof -
  let ?s = "run (initialState [] []) [Change (js ''plan'')]"
  have i: "invariant ?s" by (rule invariant_reachable)
  have a: "trim (input ?s) \<noteq> []" "\<not> isThinking ?s"
    by (simp_all add: setInput_def initialState_def trim_plan)
  have n: "\<forall>e \<in> set []. \<not> isTimeout e" by simp
  from submit_then_timeout [OF i a n, of "[]" "[]" "[]" "[]" 0]
  have ms: "length (messages (run (initialState [] []) [Change (js ''plan''), Submit [] [] [] [] 0, Timeout 0])) = 3"
    "author (messages (run (initialState [] []) [Change (js ''plan''), Submit [] [] [] [] 0, Timeout 0]) ! 1) = User"
    "author (messages (run (initialState [] []) [Change (js ''plan''), Submit [] [] [] [] 0, Timeout 0]) ! 2) = Agent"
    by (simp_all add: setInput_def initialState_def initialMessages_def nth_append)
  with conversation_append_ordered
    [of "[]" "[]" "[Change (js ''plan''), Submit [] [] [] [] 0, Timeout 0]" "[]"]
  have "repliesTo (messages (run (initialState [] []) [Change (js ''plan''), Submit [] [] [] [] 0, Timeout 0])) 2"
    by auto
  with ms show ?thesis by (intro conjI)
qed

text \<open>
  The claim as worded fails in the initial state, which is reachable: its only message
  is of author agent, and the sequence holds no user message at all.
\<close>

theorem initial_greeting_counterexample:
  "author (messages (initialState [] []) ! 0) = Agent \<and>
   \<not> list_ex (\<lambda>msg. author msg = User) (messages (initialState [] []))"
  by (simp add: initialState_def initialMessages_def)

section \<open>A rejected submit changes nothing\<close>

text \<open>
  C5. When the trimmed input is empty (the input is empty or white space only) or a
  response is pending, a submit returns the state it was given: the messages, the
  input field, the mode and the pending flag are all unchanged.
\<close>

theorem queueUserMessage_noop:
  "trim (input s) = [] \<or> isThinking s \<Longrightarrow>
     queueUserMessage uid utime aid atime r s = s \<and> step s (Submit uid utime aid atime r) = s"
  by (simp add: queueUserMessage_rejected)

text \<open>A submit of three spaces, and a second submit while the first is pending.\<close>

theorem queueUserMessage_noop_witness:
  "step (run (initialState [] []) [Change (js ''   '')]) (Submit [] [] [] [] 0) =
     run (initialState [] []) [Change (js ''   '')] \<and>
   step (run (initialState [] []) [Change (js ''plan''), Submit [] [] [] [] 0, Change (js ''plan'')])
       (Submit [] [] [] [] 0) =
     run (initialState [] []) [Change (js ''plan''), Submit [] [] [] [] 0, Change (js ''plan'')]"
proof -
  have "trim (input (run (initialState [] []) [Change (js ''   '')])) = []"
    by (simp add: setInput_def trim_plan)
  then have blank: "step (run (initialState [] []) [Change (js ''   '')]) (Submit [] [] [] [] 0) =
     run (initialState [] []) [Change (js ''   '')]"
    using queueUserMessage_noop [of "run (initialState [] []) [Change (js ''   '')]"] by simp
  have "isThinking (run (initialState [] []) [Change (js ''plan''), Submit [] [] [] [] 0, Change (js ''plan'')])"
    by (simp add: setInput_def initialState_def queueUserMessage_def Let_def trim_plan)
  then have "step (run (initialState [] []) [Change (js ''plan''), Submit [] [] [] [] 0, Change (js ''plan'')])
       (Submit [] [] [] [] 0) =
     run (initialState [] []) [Change (js ''plan''), Submit [] [] [] [] 0, Change (js ''plan'')]"
    using queueUserMessage_noop
      [of "run (initialState [] []) [Change (js ''plan''), Submit [] [] [] [] 0, Change (js ''plan'')]"]
    by blast
  with blank show ?thesis by (rule conjI)
qed

section \<open>All flags off: an empty reply is still appended\<close>

text \<open>
  C8. In a reachable state, an accepted submit (nonempty trimmed input, nothing
  pending) made while the three flags are false appends the user message and, when
  the callback runs, an agent message whose content is the empty string; what is
  typed or toggled while the reply is pending does not change this.
\<close>

theorem all_off_appends_empty_reply:
  assumes "s = run (initialState gid gtime) es"
    and "trim (input s) \<noteq> []" "\<not> isThinking s"
    and "\<not> analysis (mode s)" "\<not> planning (mode s)" "\<not> summary (mode s)"
    and "\<forall>e \<in> set es'. \<not> isTimeout e"
  shows "messages (run s (Submit uid utime aid atime r # es' @ [Timeout 0])) =
     messages s @
       [\<lparr>id' = uid, author = User, content = trim (input s), hint = None, createdAt = utime\<rparr>,
        \<lparr>id' = aid, author = Agent, content = [],
         hint = Some (js ''Calibrated plan ready''), createdAt = atime\<rparr>]"
proof -
  from assms(1) have "invariant s" by (simp add: invariant_reachable)
  from submit_then_timeout [OF this assms(2,3,7)] assms(4-6)
  show ?thesis by (simp add: replyContent_def formatAgentMessage_def Let_def)
qed

text \<open>
  The three flags are switched off, \<open>plan\<close> is submitted, and the analysis flag is
  switched on again before the callback runs: the reply is empty.
\<close>

theorem all_off_appends_empty_reply_witness:
  "messages (run (initialState [] [])
       [Toggle AnalysisKey, Toggle PlanningKey, Toggle SummaryKey, Change (js ''plan''),
        Submit [] [] [] [] 0, Toggle AnalysisKey, Timeout 0]) =
     initialMessages [] [] @
       [\<lparr>id' = [], author = User, content = js ''plan'', hint = None, createdAt = []\<rparr>,
        \<lparr>id' = [], author = Agent, content = [],
         hint = Some (js ''Calibrated plan ready''), createdAt = []\<rparr>]"
proof -
  let ?es = "[Toggle AnalysisKey, Toggle PlanningKey, Toggle SummaryKey, Change (js ''plan'')]"
  let ?s = "run (initialState [] []) ?es"
  have s: "?s = (initialState [] [])
      \<lparr>input := js ''plan'', mode := \<lparr>analysis = False, planning = False, summary = False\<rparr>\<rparr>"
    by (simp add: setInput_def initialState_def)
  have h: "trim (input ?s) \<noteq> []" "\<not> isThinking ?s"
    "\<not> analysis (mode ?s)" "\<not> planning (mode ?s)" "\<not> summary (mode ?s)"
    "\<forall>e \<in> set [Toggle AnalysisKey]. \<not> isTimeout e"
    unfolding s by (simp_all add: initialState_def trim_plan)
  from all_off_appends_empty_reply [OF refl h, of "[]" "[]" "[]" "[]" 0]
  have "messages (run ?s [Submit [] [] [] [] 0, Toggle AnalysisKey, Timeout 0]) =
     messages ?s @
       [\<lparr>id' = [], author = User, content = trim (input ?s), hint = None, createdAt = []\<rparr>,
        \<lparr>id' = [], author = Agent, content = [],
         hint = Some (js ''Calibrated plan ready''), createdAt = []\<rparr>]"
    by simp
  moreover have "run ?s [Submit [] [] [] [] 0, Toggle AnalysisKey, Timeout 0] =
      run (initialState [] [])
       [Toggle AnalysisKey, Toggle PlanningKey, Toggle SummaryKey, Change (js ''plan''),
        Submit [] [] [] [] 0, Toggle AnalysisKey, Timeout 0]"
    by (simp only: run_Cons run_Nil)
  moreover have "messages ?s = initialMessages [] []" "trim (input ?s) = js ''plan''"
    unfolding s by (simp_all add: initialState_def trim_plan)
  ultimately show ?thesis by simp
qed

section \<open>The reply lists the current input\<close>

text \<open>
  C9. In a reachable state, for an accepted submit the history handed to the formatter
  ends with the user message just appended. So when the analysis flag is set the reply
  always holds a \<open>Recent signals\<close> block, and the last marked line of the block is the
  trimmed current input; the line before it, if any, is the trimmed content of the
  latest earlier user message.
\<close>

theorem reply_lists_current_input:
  assumes "s = run (initialState gid gtime) es"
    and "trim (input s) \<noteq> []" "\<not> isThinking s"
    and "analysis (mode s)"
    and "\<forall>e \<in> set es'. \<not> isTimeout e"
  shows "\<exists>um am.
     messages (run s (Submit uid utime aid atime r # es' @ [Timeout 0])) = messages s @ [um, am] \<and>
     author um = User \<and> content um = trim (input s) \<and> author am = Agent \<and>
     content am =
       formatAgentMessage (trim (input s)) (mode s)
         (narrativeOf (pickNarrative (trim (input s))))
         (stepsOf (pickNarrative (trim (input s)))) (messages s @ [um]) \<and>
     content am =
       js ''**Analysis**'' @ newline @ narrativeOf (pickNarrative (trim (input s))) @ newline @
       js ''Recent signals:'' @ newline @
       (case rev (filter (\<lambda>msg. author msg = User) (messages s)) of
          [] \<Rightarrow> []
        | u # _ \<Rightarrow> bullet @ trim (content u) @ newline) @
       bullet @ trim (input s) @
       (if planning (mode s) \<or> summary (mode s)
        then newline @ newline @
             formatAgentMessage (trim (input s)) ((mode s)\<lparr>analysis := False\<rparr>)
               (narrativeOf (pickNarrative (trim (input s))))
               (stepsOf (pickNarrative (trim (input s)))) (messages s @ [um])
        else [])"
proof -
  let ?um = "\<lparr>id' = uid, author = User, content = trim (input s), hint = None, createdAt = utime\<rparr>"
  let ?c = "replyContent (mode s) (trim (input s)) (messages s @ [?um])"
  let ?am = "\<lparr>id' = aid, author = Agent, content = ?c,
              hint = Some (js ''Calibrated plan ready''), createdAt = atime\<rparr>"
  from assms(1) have "invariant s" by (simp add: invariant_reachable)
  from submit_then_timeout [OF this assms(2,3,5)]
  have ms: "messages (run s (Submit uid utime aid atime r # es' @ [Timeout 0])) = messages s @ [?um, ?am]" .
  have full: "?c = formatAgentMessage (trim (input s)) (mode s)
         (narrativeOf (pickNarrative (trim (input s))))
         (stepsOf (pickNarrative (trim (input s)))) (messages s @ [?um])"
    by (simp add: replyContent_def)
  have um: "author ?um = User" "trim (content ?um) = trim (input s)"
    by (simp_all add: trim_idem)
  have shape: "?c =
       js ''**Analysis**'' @ newline @ narrativeOf (pickNarrative (trim (input s))) @ newline @
       js ''Recent signals:'' @ newline @
       (case rev (filter (\<lambda>msg. author msg = User) (messages s)) of
          [] \<Rightarrow> []
        | u # _ \<Rightarrow> bullet @ trim (content u) @ newline) @
       bullet @ trim (input s) @
       (if planning (mode s) \<or> summary (mode s)
        then newline @ newline @
             formatAgentMessage (trim (input s)) ((mode s)\<lparr>analysis := False\<rparr>)
               (narrativeOf (pickNarrative (trim (input s))))
               (stepsOf (pickNarrative (trim (input s)))) (messages s @ [?um])
        else [])"
    unfolding full format_analysis_first [OF assms(4)]
      format_analysis_current [OF um(1) narrativeOf_pick_nonempty] um(2)
    by simp
  show ?thesis
    by (rule exI [of _ ?um], rule exI [of _ ?am]) (use ms full shape in simp)
qed

text \<open>
  With only the analysis flag set, the very first submit, of \<open>plan\<close> between spaces,
  is answered with a \<open>Recent signals\<close> block that lists \<open>plan\<close>.
\<close>

theorem reply_lists_current_input_witness:
  "content (last (messages (run (initialState [] [])
       [Toggle PlanningKey, Toggle SummaryKey, Change (js '' plan ''),
        Submit [] [] [] [] 0, Timeout 0]))) =
     js ''**Analysis**'' @ newline @ narrative (heuristics ! 0) @ newline @
     js ''Recent signals:'' @ newline @ bullet @ js ''plan''"
proof -
  define s where
    "s = run (initialState [] []) [Toggle PlanningKey, Toggle SummaryKey, Change (js '' plan '')]"
  have v: "trim (input s) = js ''plan''" "\<not> isThinking s" "analysis (mode s)"
    "\<not> planning (mode s)" "\<not> summary (mode s)"
    "filter (\<lambda>msg. author msg = User) (messages s) = []"
    by (simp_all add: s_def setInput_def initialState_def initialMessages_def trim_plan)
  have h: "trim (input s) \<noteq> []" "\<forall>e \<in> set []. \<not> isTimeout e"
    by (simp_all add: v trim_plan)
  from reply_lists_current_input [OF s_def h(1) v(2,3) h(2), of "[]" "[]" "[]" "[]" 0]
  obtain um am where
    "messages (run s [Submit [] [] [] [] 0, Timeout 0]) = messages s @ [um, am]"
    "content am =
       js ''**Analysis**'' @ newline @ narrativeOf (pickNarrative (js ''plan'')) @ newline @
       js ''Recent signals:'' @ newline @ bullet @ js ''plan''"
    by (auto simp add: v)
  then have "content (last (messages (run s [Submit [] [] [] [] 0, Timeout 0]))) =
     js ''**Analysis**'' @ newline @ narrative (heuristics ! 0) @ newline @
     js ''Recent signals:'' @ newline @ bullet @ js ''plan''"
    by (simp add: pick_plan)
  then show ?thesis
    unfolding s_def by (simp only: run_Cons run_Nil)
qed

section \<open>The delay of the reply\<close>

text \<open>
  C10, as the code has it. In a reachable state, for an accepted submit and a draw
  \<open>r\<close> of \<open>Math.random\<close>, a double with \<open>0 \<le> r < 1\<close>, one timer is scheduled. The delay
  handed to \<open>setTimeout\<close> is \<open>550 + r * 400\<close> evaluated in double arithmetic: the
  product is rounded to the nearest double, and so is the sum. It differs from the
  exact value of \<open>550 + r * 400\<close> by at most \<open>1 / 2 ^ 43\<close> and lies in the closed interval
  from 550 to 950. When the callback of the timer runs, the agent message is appended
  and the pending flag is cleared.
\<close>

theorem scheduled_delay_range:
  assumes "s = run (initialState gid gtime) es"
    and "trim (input s) \<noteq> []" "\<not> isThinking s"
    and "isDouble r" "0 \<le> r" "r < 1"
  shows "\<exists>t.
     timers (step s (Submit uid utime aid atime r)) = [t] \<and>
     delay t = addDouble 550 (mulDouble r 400) \<and>
     550 \<le> delay t \<and> delay t \<le> 950 \<and>
     \<bar>delay t - (550 + r * 400)\<bar> \<le> 1 / 2 ^ 43 \<and>
     messages (run s [Submit uid utime aid atime r, Timeout 0]) =
       messages s @
         [\<lparr>id' = uid, author = User, content = trim (input s), hint = None, createdAt = utime\<rparr>,
          callback t] \<and>
     \<not> isThinking (run s [Submit uid utime aid atime r, Timeout 0])"
proof -
  from assms(1) have "invariant s" by (simp add: invariant_reachable)
  with assms(2,3) have t: "timers s = []" by (simp add: invariant_def)
  note acc = queueUserMessage_accepted [OF assms(2,3), of uid utime aid atime r]
  let ?t = "hd (timers (step s (Submit uid utime aid atime r)))"
  have one: "timers (step s (Submit uid utime aid atime r)) = [?t]"
    by (simp add: acc t)
  have d: "delay ?t = addDouble 550 (mulDouble r 400)"
    by (simp add: acc t)
  have fire: "messages (run s [Submit uid utime aid atime r, Timeout 0]) =
       messages s @
         [\<lparr>id' = uid, author = User, content = trim (input s), hint = None, createdAt = utime\<rparr>,
          callback ?t]"
    "\<not> isThinking (run s [Submit uid utime aid atime r, Timeout 0])"
    by (simp_all add: acc t timeoutCallback_def)
  from delay_range [OF assms(5,6)] one d fire show ?thesis
    by (intro exI [of _ ?t]) simp
qed

text \<open>The draw one half: the delay is 750, and the reply is the third message.\<close>

theorem scheduled_delay_range_witness:
  "isDouble (1 / 2) \<and>
   delay (hd (timers (step (run (initialState [] []) [Change (js ''plan'')])
                        (Submit [] [] [] [] (1 / 2))))) = 750 \<and>
   length (messages (run (run (initialState [] []) [Change (js ''plan'')])
                      [Submit [] [] [] [] (1 / 2), Timeout 0])) = 3"
proof -
  define s where "s = run (initialState [] []) [Change (js ''plan'')]"
  have h: "trim (input s) \<noteq> []" "\<not> isThinking s" "length (messages s) = 1"
    by (simp_all add: s_def setInput_def initialState_def initialMessages_def trim_plan)
  have r: "(0::real) \<le> 1 / 2" "(1::real) / 2 < 1" by simp_all
  from scheduled_delay_range [OF s_def h(1,2) half_draw(1) r, of "[]" "[]" "[]" "[]"]
  obtain t where
    "timers (step s (Submit [] [] [] [] (1 / 2))) = [t]"
    "delay t = addDouble 550 (mulDouble (1 / 2) 400)"
    "length (messages (run s [Submit [] [] [] [] (1 / 2), Timeout 0])) = Suc (Suc (length (messages s)))"
    by auto
  with h(3) half_draw show ?thesis
    unfolding s_def by simp
qed

text \<open>
  The claim as worded fails at the largest double below 1, the draw \<open>1 - 1 / 2 ^ 53\<close>.
  The product rounds to \<open>400 - 1 / 2 ^ 44\<close>; the sum \<open>950 - 1 / 2 ^ 44\<close> lies halfway
  between two doubles and rounds to the one with the even significand, 950. The delay
  is 950, outside the half-open interval, and it is not the exact value of
  \<open>550 + r * 400\<close>.
\<close>

theorem largest_draw_counterexample:
  "isDouble (1 - 1 / 2 ^ 53) \<and>
   (0::real) \<le> 1 - 1 / 2 ^ 53 \<and>
   (1::real) - 1 / 2 ^ 53 < 1 \<and>
   delay (hd (timers (step (run (initialState [] []) [Change (js ''plan'')])
                        (Submit [] [] [] [] (1 - 1 / 2 ^ 53))))) = 950 \<and>
   (950::real) \<noteq> 550 + (1 - 1 / 2 ^ 53) * 400"
proof -
  have "delay (hd (timers (step (run (initialState [] []) [Change (js ''plan'')])
                        (Submit [] [] [] [] (1 - 1 / 2 ^ 53))))) =
      addDouble 550 (mulDouble (1 - 1 / 2 ^ 53) 400)"
    by (simp add: queueUserMessage_def Let_def setInput_def initialState_def trim_plan)
  with largest_draw_double largest_draw_delay show ?thesis by simp
qed

end
